theory Spec2Isabelle
  imports Complex_Main "HOL-Library.AList" "HOL-Library.Multiset"
begin

section \<open>Errors\<close>

text \<open>
  The Python exceptions that the modelled functions can raise. A function that can raise
  returns \<open>py_error + 'a\<close>, with \<open>Inl\<close> for the exception.
\<close>

datatype py_error =
  AssertionError | ZeroDivisionError | OverflowError | ValueError | KeyError | AttributeError

section \<open>Double-precision floats\<close>

text \<open>
  A Python \<open>float\<close> is an IEEE 754 binary64 number. The model represents a finite double
  by the real number it denotes and the two infinities by \<open>float_inf = 2 ^ 1024\<close> and its
  negative (the first power of two beyond the largest finite double). NaN has no
  representation: \<open>get_bounding_box\<close> asserts its way past a NaN argument, and its
  arithmetic yields NaN only from an infinite cosine.

  \<open>rne\<close> rounds a real to the nearest number of the form \<open>m * 2 ^ e\<close> with \<open>\<bar>m\<bar> \<le> 2 ^ 53\<close>
  and \<open>e \<ge> -1074\<close>, ties to the even \<open>m\<close>: round-to-nearest-even with the subnormal
  range and an unbounded exponent above.
\<close>

definition half_even :: "real \<Rightarrow> int" where
  "half_even q =
     (let f = \<lfloor>q\<rfloor>
      in if q - of_int f < 1 / 2 then f
         else if 1 / 2 < q - of_int f then f + 1
         else if even f then f else f + 1)"

definition pow2 :: "int \<Rightarrow> real" where
  "pow2 k = 2 powr of_int k"

definition ulp_exp :: "real \<Rightarrow> int" where
  "ulp_exp x = max (\<lfloor>log 2 \<bar>x\<bar>\<rfloor> - 52) (- 1074)"

definition rne :: "real \<Rightarrow> real" where
  "rne x =
     (if x = 0 then 0
      else sgn x * (of_int (half_even (\<bar>x\<bar> / pow2 (ulp_exp x))) * pow2 (ulp_exp x)))"

text \<open>
  \<open>round_double\<close> is the rounding of a float operation: a result that rounds to \<open>2 ^ 1024\<close>
  or beyond overflows to the infinity of its sign.
\<close>

definition float_inf :: real where
  "float_inf = pow2 1024"

definition round_double :: "real \<Rightarrow> real" where
  "round_double x = max (- float_inf) (min float_inf (rne x))"

text \<open>
  The float operations \<open>*\<close>, \<open>+\<close>, \<open>-\<close> and \<open>/\<close> (the last one for a divisor other than
  zero): the exact result, rounded; an infinite operand gives the infinity of the
  result's sign, and a finite number divided by an infinity gives zero.
\<close>

definition fmul :: "real \<Rightarrow> real \<Rightarrow> real" where
  "fmul x y = (if float_inf \<le> \<bar>x\<bar> \<or> float_inf \<le> \<bar>y\<bar> then sgn x * sgn y * float_inf else round_double (x * y))"

definition fadd :: "real \<Rightarrow> real \<Rightarrow> real" where
  "fadd x y = (if float_inf \<le> \<bar>x\<bar> then x else if float_inf \<le> \<bar>y\<bar> then y else round_double (x + y))"

definition fsub :: "real \<Rightarrow> real \<Rightarrow> real" where
  "fsub x y = fadd x (- y)"

definition fdiv :: "real \<Rightarrow> real \<Rightarrow> real" where
  "fdiv x y =
     (if float_inf \<le> \<bar>x\<bar> then sgn x * sgn y * float_inf
      else if float_inf \<le> \<bar>y\<bar> then 0
      else round_double (x / y))"

section \<open>bounding\_box.py\<close>

text \<open>The four bounds of a box, in degrees.\<close>

record BoundingBox =
  lat_min :: real
  lon_min :: real
  lat_max :: real
  lon_max :: real

text \<open>
  \<open>math.radians(x)\<close> is the float product \<open>x * (pi / 180.0)\<close> and \<open>math.degrees(x)\<close> the
  float product \<open>x * (180.0 / pi)\<close>, where \<open>pi\<close> is the double nearest to the number pi,
  \<open>884279719003555 / 2 ^ 48\<close>, and the two factors are float quotients.
\<close>

definition M_PI :: real where
  "M_PI = 884279719003555 / 2 ^ 48"

definition degToRad :: real where
  "degToRad = round_double (M_PI / 180)"

definition radToDeg :: real where
  "radToDeg = round_double (180 / M_PI)"

definition radians :: "real \<Rightarrow> real" where
  "radians x = fmul x degToRad"

definition degrees :: "real \<Rightarrow> real" where
  "degrees x = fmul x radToDeg"

text \<open>
  The radius is a Python number: an \<open>int\<close> (the caller passes the \<open>int\<close> constant
  \<open>MAX_DISTANCE_FROM_AMENITIES\<close>) or a \<open>float\<close>. \<open>num_less\<close> is Python's \<open><\<close> on numbers
  (an \<open>int\<close> and a \<open>float\<close> are compared exactly, every \<open>int\<close> is below the infinity),
  \<open>num_val\<close> the value as a real, \<open>num_ok\<close> holds when a \<open>float\<close> is a double or an
  infinity, and \<open>fits_double\<close> when the conversion to \<open>float\<close> does not overflow.
\<close>

datatype py_num = NumInt int | NumFloat real

fun num_gt_zero :: "py_num \<Rightarrow> bool" where
  "num_gt_zero (NumInt n) = (n > 0)"
| "num_gt_zero (NumFloat x) = (x > 0)"


fun num_val :: "py_num \<Rightarrow> real" where
  "num_val (NumInt n) = of_int n"
| "num_val (NumFloat x) = x"


fun fits_double :: "py_num \<Rightarrow> bool" where
  "fits_double (NumInt n) = (\<bar>rne (of_int n)\<bar> < float_inf)"
| "fits_double (NumFloat x) = True"

text \<open>
  The two divisions of the radius. \<open>half_side_in_km / radius\<close> divides by the \<open>int\<close>
  6371: for an \<open>int\<close> radius this is the true division of two \<open>int\<close>s, the exact
  quotient rounded once, and \<open>OverflowError\<close> when it is too large for a double; for a
  \<open>float\<close> radius it is the float division by \<open>6371.0\<close>.
  \<open>half_side_in_km / parallel_radius\<close> divides by a \<open>float\<close>: an \<open>int\<close> radius is first
  converted (\<open>OverflowError\<close> when it is too large for a double), then a divisor of zero
  raises \<open>ZeroDivisionError\<close>.
\<close>

fun int_truediv :: "py_num \<Rightarrow> int \<Rightarrow> py_error + real" where
  "int_truediv (NumInt n) k =
     (if float_inf \<le> \<bar>rne (of_int n / of_int k)\<bar> then Inl OverflowError
      else Inr (rne (of_int n / of_int k)))"
| "int_truediv (NumFloat x) k = Inr (fdiv x (of_int k))"

fun to_float :: "py_num \<Rightarrow> py_error + real" where
  "to_float (NumInt n) =
     (if float_inf \<le> \<bar>rne (of_int n)\<bar> then Inl OverflowError else Inr (rne (of_int n)))"
| "to_float (NumFloat x) = Inr x"

definition float_truediv :: "py_num \<Rightarrow> real \<Rightarrow> py_error + real" where
  "float_truediv a y =
     (case to_float a of
        Inl e \<Rightarrow> Inl e
      | Inr x \<Rightarrow> if y = 0 then Inl ZeroDivisionError else Inr (fdiv x y))"

text \<open>
  \<open>get_bounding_box\<close>: the three assertions in the source's order, then the two
  quotients in the order in which the source first evaluates them (it computes each of
  them twice, for the lower and for the upper bound, with the same value or the same
  exception), then the four bounds. \<open>radius * math.cos(lat)\<close> is a float product, the
  \<open>int\<close> 6371 being converted exactly. \<open>math.cos\<close> is the platform's C library
  function; it is the parameter \<open>math_cos\<close> of the model, and each theorem states what it
  needs of it.
\<close>

definition get_bounding_box ::
  "(real \<Rightarrow> real) \<Rightarrow> real \<Rightarrow> real \<Rightarrow> py_num \<Rightarrow> py_error + BoundingBox" where
  "get_bounding_box math_cos latitude_in_degrees longitude_in_degrees half_side_in_km =
     (if \<not> num_gt_zero half_side_in_km then Inl AssertionError
      else if \<not> (-90 \<le> latitude_in_degrees \<and> latitude_in_degrees \<le> 90) then Inl AssertionError
      else if \<not> (-180 \<le> longitude_in_degrees \<and> longitude_in_degrees \<le> 180) then Inl AssertionError
      else
        let lat = radians latitude_in_degrees;
            lon = radians longitude_in_degrees;
            radius = 6371;
            parallel_radius = fmul (of_int radius) (math_cos lat)
        in case int_truediv half_side_in_km radius of
             Inl e \<Rightarrow> Inl e
           | Inr lat_offset \<Rightarrow>
               (case float_truediv half_side_in_km parallel_radius of
                  Inl e \<Rightarrow> Inl e
                | Inr lon_offset \<Rightarrow>
                    Inr \<lparr> lat_min = degrees (fsub lat lat_offset),
                          lon_min = degrees (fsub lon lon_offset),
                          lat_max = degrees (fadd lat lat_offset),
                          lon_max = degrees (fadd lon lon_offset) \<rparr>))"

text \<open>
  A sample cosine for the concrete evaluations: the correctly rounded one. They use it
  only at latitude 0, where every library returns \<open>cos(0.0) = 1.0\<close>.
\<close>

definition rounded_cos :: "real \<Rightarrow> real" where
  "rounded_cos x = round_double (cos x)"

section \<open>Data frames\<close>

text \<open>
  A data frame is modelled as the list of its rows, in row order; a row is a record of
  the columns that the code reads. The extension slot of the record stands for the
  columns that the code carries along without reading them. A numeric column that may hold
  the missing-value marker (NaN) has type \<open>real option\<close>, with \<open>None\<close> for the marker;
  a string column that may be missing has type \<open>string option\<close>. Comparisons with a
  missing value are false, as in pandas.
\<close>

record place =
  name :: "string option"
  lat :: real
  lon :: real

fun nan_less :: "real option \<Rightarrow> real option \<Rightarrow> bool" where
  "nan_less (Some a) (Some b) = (a < b)"
| "nan_less _ _ = False"

fun nan_le :: "real option \<Rightarrow> real option \<Rightarrow> bool" where
  "nan_le (Some a) (Some b) = (a \<le> b)"
| "nan_le _ _ = False"

text \<open>
  A Python loop or element-wise \<open>apply\<close> whose body can raise: the first exception ends
  the whole computation.
\<close>

fun map_raise :: "('a \<Rightarrow> py_error + 'b) \<Rightarrow> 'a list \<Rightarrow> py_error + 'b list" where
  "map_raise f [] = Inr []"
| "map_raise f (x # xs) =
     (case f x of
        Inl e \<Rightarrow> Inl e
      | Inr y \<Rightarrow> (case map_raise f xs of Inl e \<Rightarrow> Inl e | Inr ys \<Rightarrow> Inr (y # ys)))"

text \<open>
  \<open>pd.concat\<close> of a list of frames raises \<open>ValueError\<close> (no objects to concatenate) on the
  empty list. \<open>DataFrame.drop_duplicates(keep=False)\<close> compares whole rows by value and
  drops every row whose value occurs more than once.
\<close>

definition pd_concat :: "'a list list \<Rightarrow> py_error + 'a list" where
  "pd_concat frames = (if frames = [] then Inl ValueError else Inr (concat frames))"

definition drop_duplicates_keep_False :: "'a list \<Rightarrow> 'a list" where
  "drop_duplicates_keep_False rows = filter (\<lambda>r. count_list rows r = 1) rows"

section \<open>airbnb.py\<close>

definition MIN_AIRBNB_PRICE :: int where
  "MIN_AIRBNB_PRICE = 0"

definition MAX_AIRBNB_PRICE :: int where
  "MAX_AIRBNB_PRICE = 100000"

text \<open>
  A listing row as \<open>read_csv\<close> delivers it, and after \<open>get_listings\<close> has fixed the
  column types. In the frame that \<open>read_csv\<close> delivers, a cell of the price or acceptance
  rate column is a string (such as \<open>$85.00\<close> or \<open>97%\<close>), a number, or missing: \<open>read_csv\<close>
  reads an empty field and spellings such as \<open>N/A\<close> as missing, gives a column a numeric
  type when none of its cells holds text that is not a number, and keeps the cells as
  strings otherwise.
\<close>

datatype csv_cell = Text string | Number real | Missing

record csv_listing = place +
  csv_host_acceptance_rate :: csv_cell
  csv_host_identity_verified :: "string option"
  csv_price :: csv_cell
  csv_num_reviews :: int
  csv_review_score :: "real option"

record listing = place +
  host_acceptance_rate :: "real option"
  host_identity_verified :: "string option"
  price :: "real option"
  num_reviews :: int
  review_score :: "real option"

text \<open>
  \<open>get_user_input\<close>: the two answers typed at the prompts are the arguments; the result
  is the dictionary, as an association list. The minimum price is stored under the key
  \<open>mix_price\<close>, as in the source.
\<close>

definition get_user_input :: "string \<Rightarrow> string \<Rightarrow> (string \<times> string) list" where
  "get_user_input min_price max_price =
     (let input_val = [];
          input_val = (if min_price \<noteq> [] then AList.update ''mix_price'' min_price input_val
                       else input_val);
          input_val = (if max_price \<noteq> [] then AList.update ''max_price'' max_price input_val
                       else input_val)
      in input_val)"

text \<open>
  \<open>get_listings\<close>, after \<open>read_csv\<close> has delivered the rows and the columns are renamed.
  The \<open>.str\<close> accessor of a column raises \<open>AttributeError\<close> unless the column holds
  strings: a column of a frame with rows in which no cell is a string has a numeric type
  and is refused (a frame without rows has columns of the object type, which is accepted).
  \<open>Series.str.replace\<close> with a one-character pattern removes every occurrence of that
  character from a string cell and gives the missing value for any other cell.
  \<open>pd.to_numeric\<close> is a library function: it is the parameter \<open>to_numeric\<close>,
  which returns \<open>None\<close> where the library cannot read a number; with
  \<open>errors='coerce'\<close> that failure becomes the missing-value marker. The price column is
  converted first, then the acceptance rate.
\<close>

fun is_text :: "csv_cell \<Rightarrow> bool" where
  "is_text (Text s) = True"
| "is_text _ = False"

definition str_accessor :: "csv_cell list \<Rightarrow> py_error + csv_cell list" where
  "str_accessor column =
     (if column = [] \<or> list_ex is_text column then Inr column else Inl AttributeError)"

definition str_replace :: "char \<Rightarrow> string \<Rightarrow> string" where
  "str_replace pat s = filter (\<lambda>c. c \<noteq> pat) s"

fun str_replace_cell :: "char \<Rightarrow> csv_cell \<Rightarrow> csv_cell" where
  "str_replace_cell pat (Text s) = Text (str_replace pat s)"
| "str_replace_cell pat _ = Missing"

fun to_numeric_coerce :: "(string \<Rightarrow> real option) \<Rightarrow> csv_cell \<Rightarrow> real option" where
  "to_numeric_coerce to_numeric (Text s) = to_numeric s"
| "to_numeric_coerce to_numeric (Number x) = Some x"
| "to_numeric_coerce to_numeric Missing = None"

definition fix_types ::
  "(string \<Rightarrow> real option) \<Rightarrow> 'a csv_listing_scheme \<Rightarrow> 'a listing_scheme" where
  "fix_types to_numeric r =
     \<lparr> name = name r, lat = lat r, lon = lon r,
       host_acceptance_rate =
         to_numeric_coerce to_numeric (str_replace_cell CHR ''%'' (csv_host_acceptance_rate r)),
       host_identity_verified = csv_host_identity_verified r,
       price = to_numeric_coerce to_numeric (str_replace_cell CHR ''$'' (csv_price r)),
       num_reviews = csv_num_reviews r,
       review_score = csv_review_score r,
       \<dots> = csv_listing.more r \<rparr>"

definition get_listings ::
  "(string \<Rightarrow> real option) \<Rightarrow> 'a csv_listing_scheme list
     \<Rightarrow> py_error + 'a listing_scheme list" where
  "get_listings to_numeric rows =
     (case str_accessor (map csv_price rows) of
        Inl e \<Rightarrow> Inl e
      | Inr _ \<Rightarrow>
          (case str_accessor (map csv_host_acceptance_rate rows) of
             Inl e \<Rightarrow> Inl e
           | Inr _ \<Rightarrow> Inr (map (fix_types to_numeric) rows)))"

text \<open>
  \<open>filter_listings\<close>. The dictionary lookups \<open>user_filter.get(key, default)\<close> give either
  the stored string or the integer default; \<open>float\<close> of a string is the parameter
  \<open>py_float\<close> (\<open>None\<close> where Python raises \<open>ValueError\<close>), \<open>float\<close> of an integer is
  that integer. An empty dictionary is false in \<open>if user_filter\<close>; \<open>main\<close> always passes
  the dictionary of \<open>get_user_input\<close>. The two \<open>print\<close> calls are left out.
\<close>

datatype py_value = PyStr string | PyInt int

definition dict_get :: "(string \<times> string) list \<Rightarrow> string \<Rightarrow> int \<Rightarrow> py_value" where
  "dict_get d k dflt = (case map_of d k of None \<Rightarrow> PyInt dflt | Some v \<Rightarrow> PyStr v)"

fun float_of :: "(string \<Rightarrow> real option) \<Rightarrow> py_value \<Rightarrow> py_error + real" where
  "float_of py_float (PyStr s) = (case py_float s of None \<Rightarrow> Inl ValueError | Some x \<Rightarrow> Inr x)"
| "float_of py_float (PyInt n) = Inr (of_int n)"

definition filter_listings ::
  "(string \<Rightarrow> real option) \<Rightarrow> 'a listing_scheme list \<Rightarrow> (string \<times> string) list
     \<Rightarrow> py_error + 'a listing_scheme list" where
  "filter_listings py_float listings user_filter =
     (let listings = filter (\<lambda>l. review_score l \<noteq> None) listings;
          listings = filter (\<lambda>l. num_reviews l > 10 \<and> nan_less (Some 75) (review_score l)) listings;
          listings = filter (\<lambda>l. host_identity_verified l = Some ''t'') listings
      in if user_filter \<noteq> [] then
           (let min_price = dict_get user_filter ''min_price'' MIN_AIRBNB_PRICE;
                max_price = dict_get user_filter ''max_price'' MAX_AIRBNB_PRICE
            in case float_of py_float min_price of
                 Inl e \<Rightarrow> Inl e
               | Inr lo \<Rightarrow>
                   (case float_of py_float max_price of
                      Inl e \<Rightarrow> Inl e
                    | Inr hi \<Rightarrow>
                        Inr (filter (\<lambda>l. nan_le (Some lo) (price l) \<and> nan_le (price l) (Some hi))
                               listings)))
         else Inr listings)"

text \<open>
  \<open>get_ideal_listings\<close>: one box per cluster centre (\<open>center[0]\<close> is the latitude,
  \<open>center[1]\<close> the longitude), the two-step selection of the rows inside each box, then
  the concatenation without the rows that occur more than once.
\<close>

definition box_listings :: "BoundingBox \<Rightarrow> 'a place_scheme list \<Rightarrow> 'a place_scheme list" where
  "box_listings location airbnb_locations =
     (let listings = filter (\<lambda>l. lat l > lat_min location \<and> lon l > lon_min location)
                       airbnb_locations;
          listings = filter (\<lambda>l. lat l < lat_max location \<and> lon l < lon_max location) listings
      in listings)"

definition get_ideal_listings ::
  "(real \<Rightarrow> real) \<Rightarrow> 'a place_scheme list \<Rightarrow> (real \<times> real) list \<Rightarrow> py_num
     \<Rightarrow> py_error + 'a place_scheme list" where
  "get_ideal_listings math_cos airbnb_locations clusters_center distance =
     (case map_raise (\<lambda>center. get_bounding_box math_cos (fst center) (snd center) distance)
             clusters_center of
        Inl e \<Rightarrow> Inl e
      | Inr ideal_locations \<Rightarrow>
          (let ideal_listings = map (\<lambda>location. box_listings location airbnb_locations) ideal_locations
           in case pd_concat ideal_listings of
                Inl e \<Rightarrow> Inl e
              | Inr ideal_rentals \<Rightarrow> Inr (drop_duplicates_keep_False ideal_rentals)))"

section \<open>restaurants.py\<close>

definition RESTAURANTS :: "string list" where
  "RESTAURANTS = [''restaurant'', ''cafe'', ''fast_food'']"

record amenity_row = place +
  amenity :: string

definition get_restaurants :: "'a amenity_row_scheme list \<Rightarrow> 'a amenity_row_scheme list" where
  "get_restaurants locations =
     (let restaurants = filter (\<lambda>r. amenity r \<in> set RESTAURANTS) locations
      in filter (\<lambda>r. name r \<noteq> None) restaurants)"

text \<open>
  The frame with the added column \<open>total_branches\<close> is a list of pairs of a row and its
  \<open>total_branches\<close> value. \<open>groupby('name').count()\<close> has one entry per name that occurs
  (rows without a name belong to no group); its \<open>total_branches\<close> column counts the rows
  of the group. Looking up a label that is not in that index raises \<open>KeyError\<close>.
  \<open>reset_index\<close> only renumbers the rows.
\<close>

definition groupby_name_count :: "('a place_scheme \<times> int) list \<Rightarrow> string \<Rightarrow> int option" where
  "groupby_name_count df n =
     (let group = filter (\<lambda>r. name (fst r) = Some n) df
      in if group = [] then None else Some (int (length group)))"

definition get_restaurant_count :: "string option \<Rightarrow> (string \<Rightarrow> int option) \<Rightarrow> py_error + int" where
  "get_restaurant_count nm df =
     (case nm of
        None \<Rightarrow> Inl KeyError
      | Some n \<Rightarrow> (case df n of None \<Rightarrow> Inl KeyError | Some k \<Rightarrow> Inr k))"

definition split_restaurants ::
  "'a place_scheme list
     \<Rightarrow> py_error + (('a place_scheme \<times> int) list \<times> ('a place_scheme \<times> int) list)" where
  "split_restaurants restaurants =
     (let restaurants = map (\<lambda>r. (r, 1)) restaurants;
          count = groupby_name_count restaurants
      in case map_raise (\<lambda>r. get_restaurant_count (name (fst r)) count) restaurants of
           Inl e \<Rightarrow> Inl e
         | Inr total_branches \<Rightarrow>
             (let restaurants = zip (map fst restaurants) total_branches;
                  chain_restaurants = filter (\<lambda>r. snd r > 1) restaurants;
                  non_chain_restaurants = filter (\<lambda>r. snd r < 2) restaurants
              in Inr (chain_restaurants, non_chain_restaurants)))"

section \<open>A sample reader of numbers\<close>

text \<open>
  The theorems about \<open>get_listings\<close> and \<open>filter_listings\<close> hold for every behaviour of
  the library's string-to-number conversions. To run the model on concrete rows, this
  reader accepts plain decimal numerals: an optional sign, digits, and an optional point
  followed by digits, with at least one digit (\<open>150\<close>, \<open>85.00\<close>, \<open>97.5\<close>, \<open>-3\<close>). On these
  strings \<open>float\<close> and \<open>pd.to_numeric\<close> give the same number; both reject a numeral with
  a thousands separator such as \<open>1,200.00\<close>, and so does the reader. Other spellings that
  the libraries accept (exponents, surrounding blanks, \<open>inf\<close>) are not covered.
\<close>

definition digit_of :: "char \<Rightarrow> nat option" where
  "digit_of c =
     (if c \<in> set ''0123456789'' then Some (of_char c - 48) else None)"

fun read_digits :: "nat \<Rightarrow> string \<Rightarrow> nat option" where
  "read_digits acc [] = Some acc"
| "read_digits acc (c # cs) =
     (case digit_of c of None \<Rightarrow> None | Some d \<Rightarrow> read_digits (10 * acc + d) cs)"

definition read_unsigned :: "string \<Rightarrow> real option" where
  "read_unsigned s =
     (let whole = takeWhile (\<lambda>c. c \<noteq> CHR ''.'') s;
          frac = drop 1 (dropWhile (\<lambda>c. c \<noteq> CHR ''.'') s)
      in if whole = [] \<and> frac = [] then None
         else (case read_digits 0 whole of
                 None \<Rightarrow> None
               | Some n \<Rightarrow>
                   (case read_digits 0 frac of
                      None \<Rightarrow> None
                    | Some m \<Rightarrow> Some (real n + real m / 10 ^ length frac))))"

definition read_number :: "string \<Rightarrow> real option" where
  "read_number s =
     (case s of
        [] \<Rightarrow> None
      | c # cs \<Rightarrow>
          (if c = CHR ''-'' then map_option uminus (read_unsigned cs)
           else if c = CHR ''+'' then read_unsigned cs
           else read_unsigned s))"

section \<open>Properties of rounding to a double\<close>

lemma pow2_pos [simp]: "0 < pow2 k"
  by (simp add: pow2_def)

lemma pow2_nonneg [simp]: "0 \<le> pow2 k"
  by (simp add: pow2_def)

lemma pow2_neq0 [simp]: "pow2 k \<noteq> 0"
  by (simp add: pow2_def)

lemma pow2_add: "pow2 (a + b) = pow2 a * pow2 b"
  by (simp add: pow2_def powr_add)

lemma pow2_diff: "pow2 (a - b) = pow2 a / pow2 b"
  by (simp add: pow2_def powr_diff)

lemma pow2_mono: "a \<le> b \<Longrightarrow> pow2 a \<le> pow2 b"
  by (simp add: pow2_def powr_mono)

lemma pow2_nat: "0 \<le> k \<Longrightarrow> pow2 k = of_int (2 ^ nat k)"
proof -
  assume "0 \<le> k"
  then have "pow2 k = (2::real) powr real (nat k)" by (simp add: pow2_def)
  also have "\<dots> = (2::real) ^ nat k" by (rule powr_realpow) simp
  finally show ?thesis by simp
qed

lemma half_even_of_int [simp]: "half_even (of_int k) = k"
  by (simp add: half_even_def)

lemma half_even_ge_floor: "\<lfloor>q\<rfloor> \<le> half_even q"
  by (simp add: half_even_def Let_def)

lemma half_even_le_floor1: "half_even q \<le> \<lfloor>q\<rfloor> + 1"
  by (simp add: half_even_def Let_def)

lemma half_even_mono:
  assumes "q \<le> q'"
  shows "half_even q \<le> half_even q'"
proof (cases "\<lfloor>q\<rfloor> = \<lfloor>q'\<rfloor>")
  case True
  then show ?thesis
    using assms by (auto simp: half_even_def Let_def)
next
  case False
  with assms have "\<lfloor>q\<rfloor> < \<lfloor>q'\<rfloor>"
    using floor_mono[OF assms] by linarith
  then have "half_even q \<le> \<lfloor>q'\<rfloor>"
    using half_even_le_floor1[of q] by linarith
  then show ?thesis
    using half_even_ge_floor[of q'] by linarith
qed

lemma half_even_error: "\<bar>of_int (half_even q) - q\<bar> \<le> 1 / 2"
proof -
  have "of_int \<lfloor>q\<rfloor> \<le> q" "q < of_int \<lfloor>q\<rfloor> + 1" by linarith+
  then show ?thesis
    by (auto simp: half_even_def Let_def abs_le_iff)
qed

lemma half_even_nonneg: "0 \<le> q \<Longrightarrow> 0 \<le> half_even q"
  using half_even_mono[of 0 q] half_even_of_int[of 0] by simp

lemma rne_zero [simp]: "rne 0 = 0"
  by (simp add: rne_def)

lemma ulp_exp_minus [simp]: "ulp_exp (- x) = ulp_exp x"
  by (simp add: ulp_exp_def)

lemma rne_minus: "rne (- x) = - rne x"
  by (simp add: rne_def sgn_minus)

lemma rne_nonneg: "0 \<le> x \<Longrightarrow> 0 \<le> rne x"
  by (auto simp: rne_def sgn_if intro!: mult_nonneg_nonneg half_even_nonneg)

lemma rne_pos_unfold:
  "0 < x \<Longrightarrow> rne x = of_int (half_even (x / pow2 (ulp_exp x))) * pow2 (ulp_exp x)"
  by (simp add: rne_def)

lemma ulp_exp_mono:
  assumes "0 < x" "x \<le> y"
  shows "ulp_exp x \<le> ulp_exp y"
proof -
  have "log 2 x \<le> log 2 y" using assms by simp
  then have "\<lfloor>log 2 x\<rfloor> \<le> \<lfloor>log 2 y\<rfloor>" by (rule floor_mono)
  then show ?thesis using assms by (simp add: ulp_exp_def)
qed

lemma floor_log2_lower: "0 < x \<Longrightarrow> pow2 \<lfloor>log 2 x\<rfloor> \<le> x"
  using floor_log_eq_powr_iff[of x 2 "\<lfloor>log 2 x\<rfloor>"] by (simp add: pow2_def)

lemma floor_log2_upper: "0 < x \<Longrightarrow> x < pow2 (\<lfloor>log 2 x\<rfloor> + 1)"
  using floor_log_eq_powr_iff[of x 2 "\<lfloor>log 2 x\<rfloor>"] by (simp add: pow2_def)

lemma rne_le_grid:
  assumes "0 < x" and "x \<le> pow2 g" and "ulp_exp x \<le> g"
  shows "rne x \<le> pow2 g"
proof -
  let ?e = "ulp_exp x"
  have "x / pow2 ?e \<le> pow2 g / pow2 ?e"
    using assms(2) by (simp add: divide_right_mono)
  also have "\<dots> = pow2 (g - ?e)"
    by (simp add: pow2_diff)
  also have "\<dots> = of_int (2 ^ nat (g - ?e))"
    using assms(3) by (intro pow2_nat) simp
  finally have "half_even (x / pow2 ?e) \<le> half_even (of_int (2 ^ nat (g - ?e)))"
    by (rule half_even_mono)
  then have "half_even (x / pow2 ?e) \<le> 2 ^ nat (g - ?e)"
    by (simp only: half_even_of_int)
  then have "of_int (half_even (x / pow2 ?e)) \<le> (of_int (2 ^ nat (g - ?e)) :: real)"
    by (simp only: of_int_le_iff)
  also have "\<dots> = pow2 (g - ?e)"
    using assms(3) by (simp add: pow2_nat)
  finally have "of_int (half_even (x / pow2 ?e)) * pow2 ?e
                  \<le> pow2 (g - ?e) * pow2 ?e"
    by (simp add: mult_right_mono)
  also have "\<dots> = pow2 g"
    by (simp add: pow2_add[symmetric])
  finally show ?thesis
    using assms(1) by (simp add: rne_pos_unfold)
qed

lemma rne_ge_grid:
  assumes "0 < x" and "pow2 g \<le> x" and "ulp_exp x \<le> g"
  shows "pow2 g \<le> rne x"
proof -
  let ?e = "ulp_exp x"
  have "pow2 g / pow2 ?e \<le> x / pow2 ?e"
    using assms(2) by (simp add: divide_right_mono)
  moreover have "pow2 g / pow2 ?e = pow2 (g - ?e)"
    by (simp add: pow2_diff)
  moreover have "pow2 (g - ?e) = of_int (2 ^ nat (g - ?e))"
    using assms(3) by (intro pow2_nat) simp
  ultimately have "of_int (2 ^ nat (g - ?e)) \<le> x / pow2 ?e"
    by simp
  then have "half_even (of_int (2 ^ nat (g - ?e))) \<le> half_even (x / pow2 ?e)"
    by (rule half_even_mono)
  then have "2 ^ nat (g - ?e) \<le> half_even (x / pow2 ?e)"
    by (simp only: half_even_of_int)
  then have "(of_int (2 ^ nat (g - ?e)) :: real) \<le> of_int (half_even (x / pow2 ?e))"
    by (simp only: of_int_le_iff)
  then have "pow2 (g - ?e) \<le> of_int (half_even (x / pow2 ?e))"
    using assms(3) by (simp add: pow2_nat)
  then have "pow2 (g - ?e) * pow2 ?e
               \<le> of_int (half_even (x / pow2 ?e)) * pow2 ?e"
    by (simp add: mult_right_mono)
  moreover have "pow2 (g - ?e) * pow2 ?e = pow2 g"
    by (simp add: pow2_add[symmetric])
  ultimately show ?thesis
    using assms(1) by (simp add: rne_pos_unfold)
qed

lemma rne_mono_pos:
  assumes "0 < x" "x \<le> y"
  shows "rne x \<le> rne y"
proof (cases "ulp_exp x = ulp_exp y")
  case True
  have "x / pow2 (ulp_exp y) \<le> y / pow2 (ulp_exp y)"
    using assms(2) by (simp add: divide_right_mono)
  then have "half_even (x / pow2 (ulp_exp y)) \<le> half_even (y / pow2 (ulp_exp y))"
    by (rule half_even_mono)
  then show ?thesis
    using assms by (simp add: rne_pos_unfold True mult_right_mono)
next
  case False
  have y: "0 < y" using assms by simp
  from False ulp_exp_mono[OF assms] have lt: "ulp_exp x < ulp_exp y" by simp
  define g where "g = \<lfloor>log 2 y\<rfloor>"
  have ey: "ulp_exp y = g - 52"
    using lt y by (simp add: ulp_exp_def g_def max_def split: if_splits)
  have gy: "pow2 g \<le> y"
    unfolding g_def using y by (rule floor_log2_lower)
  have "\<lfloor>log 2 x\<rfloor> - 52 \<le> ulp_exp x"
    using assms(1) by (simp add: ulp_exp_def)
  with lt ey have "\<lfloor>log 2 x\<rfloor> + 1 \<le> g" by simp
  then have "pow2 (\<lfloor>log 2 x\<rfloor> + 1) \<le> pow2 g"
    by (rule pow2_mono)
  with floor_log2_upper[OF assms(1)] have xg: "x \<le> pow2 g" by simp
  have "rne x \<le> pow2 g"
    using assms(1) xg lt ey by (intro rne_le_grid) simp_all
  moreover have "pow2 g \<le> rne y"
    using y gy ey by (intro rne_ge_grid) simp_all
  ultimately show ?thesis by simp
qed

lemma rne_mono:
  assumes "x \<le> y"
  shows "rne x \<le> rne y"
proof -
  consider "0 < x" | "x \<le> 0" "0 \<le> y" | "y < 0" by linarith
  then show ?thesis
  proof cases
    case 1
    then show ?thesis using assms by (rule rne_mono_pos)
  next
    case 2
    have "rne x \<le> 0" using rne_nonneg[of "- x"] 2(1) by (simp add: rne_minus)
    moreover have "0 \<le> rne y" using 2(2) by (rule rne_nonneg)
    ultimately show ?thesis by simp
  next
    case 3
    have "rne (- y) \<le> rne (- x)"
      using 3 assms by (intro rne_mono_pos) simp_all
    then show ?thesis by (simp add: rne_minus)
  qed
qed

lemma pow2_less_cancel: "pow2 a < pow2 b \<Longrightarrow> a < b"
  by (simp add: pow2_def)

lemma pow2_neg_nat: "pow2 (- int n) = 1 / 2 ^ n"
proof -
  have "pow2 (- int n) = pow2 0 / pow2 (int n)"
    using pow2_diff[of 0 "int n"] by simp
  also have "\<dots> = 1 / 2 ^ n"
    by (simp add: pow2_nat)
  finally show ?thesis .
qed

lemma pow2_0 [simp]: "pow2 0 = 1"
  by (simp add: pow2_def)

lemma ulp_exp_le:
  assumes "x \<noteq> 0" and "\<bar>x\<bar> < pow2 (k + 53)" and "- 1074 \<le> k"
  shows "ulp_exp x \<le> k"
proof -
  have "pow2 \<lfloor>log 2 \<bar>x\<bar>\<rfloor> \<le> \<bar>x\<bar>"
    using assms(1) by (intro floor_log2_lower) simp
  with assms(2) have "pow2 \<lfloor>log 2 \<bar>x\<bar>\<rfloor> < pow2 (k + 53)" by simp
  then have "\<lfloor>log 2 \<bar>x\<bar>\<rfloor> < k + 53" by (rule pow2_less_cancel)
  then show ?thesis using assms(3) by (simp add: ulp_exp_def)
qed

lemma rne_on_grid:
  assumes "\<bar>x\<bar> = of_int n * pow2 k" and "ulp_exp x \<le> k"
  shows "rne x = x"
proof (cases "x = 0")
  case True
  then show ?thesis by simp
next
  case False
  let ?e = "ulp_exp x"
  have "\<bar>x\<bar> / pow2 ?e = of_int n * (pow2 k / pow2 ?e)"
    by (simp add: assms(1))
  also have "pow2 k / pow2 ?e = pow2 (k - ?e)"
    by (simp add: pow2_diff)
  also have "\<dots> = of_int (2 ^ nat (k - ?e))"
    using assms(2) by (intro pow2_nat) simp
  finally have "\<bar>x\<bar> / pow2 ?e = of_int (n * 2 ^ nat (k - ?e))"
    by simp
  then have "of_int (half_even (\<bar>x\<bar> / pow2 ?e)) = \<bar>x\<bar> / pow2 ?e"
    by (simp only: half_even_of_int)
  then show ?thesis
    using False by (simp add: rne_def sgn_if)
qed

lemma rne_dyadic:
  assumes "\<bar>m\<bar> < 2 ^ 53" and "- 1074 \<le> k"
  shows "rne (of_int m * pow2 k) = of_int m * pow2 k"
proof (cases "m = 0")
  case True
  then show ?thesis by simp
next
  case False
  let ?x = "of_int m * pow2 k"
  have nz: "?x \<noteq> 0" using False by simp
  have ab: "\<bar>?x\<bar> = of_int \<bar>m\<bar> * pow2 k"
    by (simp add: abs_mult)
  have "(of_int \<bar>m\<bar> :: real) < of_int (2 ^ 53)"
    using assms(1) by (simp only: of_int_less_iff)
  then have "of_int \<bar>m\<bar> * pow2 k < of_int (2 ^ 53) * pow2 k"
    by (simp add: mult_strict_right_mono)
  also have "of_int (2 ^ 53) * pow2 k = pow2 53 * pow2 k"
    by (simp add: pow2_nat)
  also have "\<dots> = pow2 (k + 53)"
    by (simp add: pow2_add)
  finally have "\<bar>?x\<bar> < pow2 (k + 53)" by (simp only: ab)
  then have "ulp_exp ?x \<le> k"
    using nz assms(2) by (intro ulp_exp_le)
  with ab show ?thesis by (rule rne_on_grid)
qed

lemma rne_of_int: "\<bar>m\<bar> < 2 ^ 53 \<Longrightarrow> rne (of_int m) = of_int m"
  using rne_dyadic[of m 0] by simp

lemma rne_pow2: "- 1074 \<le> k \<Longrightarrow> rne (pow2 k) = pow2 k"
  using rne_dyadic[of 1 k] by simp

lemma rne_error_ulp:
  assumes "x \<noteq> 0"
  shows "\<bar>rne x - x\<bar> \<le> pow2 (ulp_exp x) / 2"
proof -
  let ?p = "pow2 (ulp_exp x)"
  let ?h = "of_int (half_even (\<bar>x\<bar> / ?p)) :: real"
  have "rne x - x = sgn x * (?h * ?p - \<bar>x\<bar>)"
    using assms by (simp add: rne_def sgn_if algebra_simps)
  then have "\<bar>rne x - x\<bar> = \<bar>?h * ?p - \<bar>x\<bar>\<bar>"
    using assms by (simp add: abs_mult sgn_if)
  also have "?h * ?p - \<bar>x\<bar> = (?h - \<bar>x\<bar> / ?p) * ?p"
    by (simp add: algebra_simps)
  also have "\<bar>\<dots>\<bar> = \<bar>?h - \<bar>x\<bar> / ?p\<bar> * ?p"
    by (simp add: abs_mult)
  also have "\<dots> \<le> (1 / 2) * ?p"
    by (intro mult_right_mono half_even_error) simp
  finally show ?thesis by simp
qed

lemma pow2_ulp_exp_le:
  assumes "x \<noteq> 0"
  shows "pow2 (ulp_exp x) \<le> \<bar>x\<bar> * pow2 (- 52) + pow2 (- 1074)"
proof (cases "\<lfloor>log 2 \<bar>x\<bar>\<rfloor> - 52 \<le> - 1074")
  case True
  then have "ulp_exp x = - 1074" by (simp add: ulp_exp_def)
  then show ?thesis by simp
next
  case False
  then have e: "ulp_exp x = \<lfloor>log 2 \<bar>x\<bar>\<rfloor> - 52" by (simp add: ulp_exp_def)
  have "pow2 (ulp_exp x) = pow2 \<lfloor>log 2 \<bar>x\<bar>\<rfloor> * pow2 (- 52)"
    unfolding e using pow2_add[of "\<lfloor>log 2 \<bar>x\<bar>\<rfloor>" "- 52"] by simp
  also have "\<dots> \<le> \<bar>x\<bar> * pow2 (- 52)"
    using assms by (intro mult_right_mono floor_log2_lower) simp_all
  finally show ?thesis
    using pow2_nonneg[of "- 1074"] by linarith
qed

lemma rne_error:
  "\<bar>rne x - x\<bar> \<le> \<bar>x\<bar> * pow2 (- 53) + pow2 (- 1075)"
proof (cases "x = 0")
  case True
  then show ?thesis by simp
next
  case False
  have a: "pow2 (- 52) / 2 = pow2 (- 53)"
    using pow2_diff[of "- 52" 1] by (simp add: pow2_def)
  have b: "pow2 (- 1074) / 2 = pow2 (- 1075)"
    using pow2_diff[of "- 1074" 1] by (simp add: pow2_def)
  have "pow2 (ulp_exp x) / 2 \<le> (\<bar>x\<bar> * pow2 (- 52) + pow2 (- 1074)) / 2"
    using pow2_ulp_exp_le[OF False] by (rule divide_right_mono) simp
  with rne_error_ulp[OF False]
  have "\<bar>rne x - x\<bar> \<le> (\<bar>x\<bar> * pow2 (- 52) + pow2 (- 1074)) / 2"
    by (rule order_trans)
  also have "\<dots> = \<bar>x\<bar> * (pow2 (- 52) / 2) + pow2 (- 1074) / 2"
    by (simp add: field_simps)
  finally show ?thesis by (simp only: a b)
qed

lemma float_inf_pos [simp]: "0 < float_inf"
  by (simp add: float_inf_def)

lemma float_inf_nonneg [simp]: "0 \<le> float_inf"
  by (simp add: float_inf_def)

lemma rne_float_inf: "rne float_inf = float_inf"
  unfolding float_inf_def by (rule rne_pow2) simp

lemma round_double_mono: "x \<le> y \<Longrightarrow> round_double x \<le> round_double y"
  using rne_mono[of x y] by (simp add: round_double_def)

lemma round_double_le_inf: "round_double x \<le> float_inf"
  by (simp add: round_double_def)

lemma round_double_ge_inf: "- float_inf \<le> round_double x"
  by (simp add: round_double_def)

lemma round_double_abs_le: "\<bar>round_double x\<bar> \<le> float_inf"
  using round_double_le_inf[of x] round_double_ge_inf[of x] by (simp add: abs_le_iff)

lemma round_double_zero [simp]: "round_double 0 = 0"
  by (simp add: round_double_def)

lemma round_double_nonneg: "0 \<le> x \<Longrightarrow> 0 \<le> round_double x"
  using round_double_mono[of 0 x] by simp

lemma round_double_nonpos: "x \<le> 0 \<Longrightarrow> round_double x \<le> 0"
  using round_double_mono[of x 0] by simp

lemma round_double_minus: "round_double (- x) = - round_double x"
  unfolding round_double_def rne_minus min_def max_def
  using float_inf_pos by (auto simp del: float_inf_pos float_inf_nonneg)

lemma round_double_fix: "rne x = x \<Longrightarrow> \<bar>x\<bar> \<le> float_inf \<Longrightarrow> round_double x = x"
  by (simp add: round_double_def abs_le_iff)

lemma round_double_dyadic:
  assumes "\<bar>m\<bar> < 2 ^ 53" and "- 1074 \<le> k" and "k \<le> 971"
  shows "round_double (of_int m * pow2 k) = of_int m * pow2 k"
proof -
  have "(of_int \<bar>m\<bar> :: real) \<le> of_int (2 ^ 53)"
    using assms(1) by (simp only: of_int_le_iff)
  also have "(of_int (2 ^ 53) :: real) = pow2 53" by (simp add: pow2_nat)
  finally have "of_int \<bar>m\<bar> * pow2 k \<le> pow2 53 * pow2 k"
    by (simp add: mult_right_mono)
  also have "\<dots> = pow2 (53 + k)" by (simp add: pow2_add)
  also have "\<dots> \<le> float_inf"
    unfolding float_inf_def using assms(3) by (intro pow2_mono) simp
  finally have "\<bar>of_int m * pow2 k\<bar> \<le> float_inf"
    by (simp add: abs_mult)
  with rne_dyadic[OF assms(1,2)] show ?thesis by (rule round_double_fix)
qed

lemma round_double_of_int: "\<bar>m\<bar> < 2 ^ 53 \<Longrightarrow> round_double (of_int m) = of_int m"
  using round_double_dyadic[of m 0] by simp

lemma round_double_pow2: "- 1074 \<le> k \<Longrightarrow> k \<le> 1024 \<Longrightarrow> round_double (pow2 k) = pow2 k"
proof -
  assume k: "- 1074 \<le> k" "k \<le> 1024"
  have "\<bar>pow2 k\<bar> \<le> float_inf"
    unfolding float_inf_def using k(2) by (simp add: pow2_mono)
  with rne_pow2[OF k(1)] show ?thesis by (rule round_double_fix)
qed

text \<open>Between two doubles the rounding stays between them.\<close>

lemma round_double_between:
  assumes "round_double a = a" "round_double b = b" "a \<le> x" "x \<le> b"
  shows "a \<le> round_double x \<and> round_double x \<le> b"
  using round_double_mono[OF assms(3)] round_double_mono[OF assms(4)] assms(1,2) by simp

lemma round_double_rne:
  assumes "\<bar>x\<bar> \<le> pow2 1023"
  shows "round_double x = rne x"
proof -
  have p: "rne (pow2 1023) = pow2 1023"
    by (rule rne_pow2) simp
  have "rne x \<le> rne (pow2 1023)" using assms by (intro rne_mono) simp
  moreover have "rne (- pow2 1023) \<le> rne x" using assms by (intro rne_mono) simp
  ultimately have "\<bar>rne x\<bar> \<le> pow2 1023" by (simp add: p rne_minus abs_le_iff)
  also have "pow2 1023 \<le> float_inf" unfolding float_inf_def by (rule pow2_mono) simp
  finally show ?thesis by (simp add: round_double_def abs_le_iff)
qed

lemma round_double_error:
  assumes "\<bar>x\<bar> \<le> pow2 1023"
  shows "\<bar>round_double x - x\<bar> \<le> \<bar>x\<bar> * pow2 (- 53) + pow2 (- 1075)"
  using rne_error[of x] by (simp add: round_double_rne[OF assms])

section \<open>Properties of the float operations\<close>

lemma fadd_abs_le: "\<bar>x\<bar> \<le> float_inf \<Longrightarrow> \<bar>y\<bar> \<le> float_inf \<Longrightarrow> \<bar>fadd x y\<bar> \<le> float_inf"
  by (simp add: fadd_def round_double_abs_le)

lemma fadd_mono2:
  assumes "\<bar>x\<bar> < float_inf" and "y \<le> y'" and "\<bar>y\<bar> \<le> float_inf" and "\<bar>y'\<bar> \<le> float_inf"
  shows "fadd x y \<le> fadd x y'"
proof -
  have rd: "round_double (x + y) \<le> round_double (x + y')"
    using assms(2) by (intro round_double_mono) simp
  show ?thesis
    using assms rd round_double_le_inf[of "x + y"] round_double_ge_inf[of "x + y'"]
    by (auto simp: fadd_def abs_le_iff)
qed

lemma fmul_mono1:
  assumes "0 < c" and "c < float_inf" and "x \<le> x'"
    and "\<bar>x\<bar> \<le> float_inf" and "\<bar>x'\<bar> \<le> float_inf"
  shows "fmul x c \<le> fmul x' c"
proof -
  have rd: "round_double (x * c) \<le> round_double (x' * c)"
    using assms(1,3) by (intro round_double_mono mult_right_mono) simp_all
  show ?thesis
    using assms rd round_double_le_inf[of "x * c"] round_double_ge_inf[of "x' * c"]
    by (auto simp: fmul_def abs_le_iff sgn_if)
qed

lemma fmul_abs_le: "\<bar>fmul x y\<bar> \<le> float_inf"
  by (auto simp: fmul_def round_double_abs_le sgn_if)

lemma fdiv_abs_le: "\<bar>fdiv x y\<bar> \<le> float_inf"
  by (auto simp: fdiv_def round_double_abs_le sgn_if)

lemma fdiv_nonneg: "0 \<le> x \<Longrightarrow> 0 < y \<Longrightarrow> 0 \<le> fdiv x y"
  by (auto simp: fdiv_def intro!: round_double_nonneg)


section \<open>Properties of the bounding box\<close>

lemma pow2_numeral_vals:
  "pow2 (- 6) = 1 / 64" "pow2 (- 5) = 1 / 32" "pow2 5 = 32" "pow2 6 = 64" "pow2 3 = 8"
  "pow2 13 = 8192"
  using pow2_neg_nat[of 6] pow2_neg_nat[of 5] by (simp_all add: pow2_nat)

lemma float_inf_gt: "8192 < float_inf"
proof -
  have "pow2 13 < pow2 1024"
    by (simp add: pow2_def)
  then show ?thesis by (simp add: float_inf_def pow2_numeral_vals)
qed

lemma M_PI_bounds: "3 < M_PI" "M_PI < 4"
  by (simp_all add: M_PI_def)

lemma degToRad_bounds: "1 / 64 \<le> degToRad" "degToRad \<le> 1 / 32"
proof -
  have a: "round_double (1 / 64) = 1 / 64"
    using round_double_pow2[of "- 6"] by (simp add: pow2_numeral_vals)
  have b: "round_double (1 / 32) = 1 / 32"
    using round_double_pow2[of "- 5"] by (simp add: pow2_numeral_vals)
  have "1 / 64 \<le> M_PI / 180" "M_PI / 180 \<le> 1 / 32"
    using M_PI_bounds by simp_all
  from round_double_between[OF a b this]
  show "1 / 64 \<le> degToRad" "degToRad \<le> 1 / 32"
    by (simp_all add: degToRad_def)
qed

lemma radToDeg_bounds: "32 \<le> radToDeg" "radToDeg \<le> 64"
proof -
  have a: "round_double 32 = 32"
    using round_double_of_int[of 32] by simp
  have b: "round_double 64 = 64"
    using round_double_of_int[of 64] by simp
  have "32 \<le> 180 / M_PI" "180 / M_PI \<le> 64"
    using M_PI_bounds by (simp_all add: field_simps)
  from round_double_between[OF a b this]
  show "32 \<le> radToDeg" "radToDeg \<le> 64"
    by (simp_all add: radToDeg_def)
qed

lemma radians_abs:
  assumes "\<bar>x\<bar> \<le> 180"
  shows "\<bar>radians x\<bar> \<le> 8"
proof -
  have x: "\<bar>x\<bar> < float_inf" using assms float_inf_gt by linarith
  have d: "\<bar>degToRad\<bar> < float_inf" using degToRad_bounds float_inf_gt by (simp add: abs_if)
  have r: "radians x = round_double (x * degToRad)"
    using x d by (simp add: radians_def fmul_def)
  have a: "round_double (- 8) = - 8" using round_double_of_int[of "- 8"] by simp
  have b: "round_double 8 = 8" using round_double_of_int[of 8] by simp
  have "\<bar>x * degToRad\<bar> \<le> 180 * (1 / 32)"
    unfolding abs_mult using assms degToRad_bounds
    by (intro mult_mono) (simp_all add: abs_if)
  then have "- 8 \<le> x * degToRad" "x * degToRad \<le> 8"
    by (simp_all add: abs_le_iff)
  from round_double_between[OF a b this] show ?thesis
    by (simp add: r abs_le_iff)
qed

lemma degrees_mono:
  assumes "x \<le> x'" "\<bar>x\<bar> \<le> float_inf" "\<bar>x'\<bar> \<le> float_inf"
  shows "degrees x \<le> degrees x'"
  unfolding degrees_def
  using radToDeg_bounds float_inf_gt assms by (intro fmul_mono1) simp_all

lemma int_truediv_pos:
  assumes "num_gt_zero h" and "0 < k" and "int_truediv h k = Inr d"
  shows "0 \<le> d \<and> \<bar>d\<bar> \<le> float_inf"
proof (cases h)
  case (NumInt n)
  with assms have "0 \<le> (of_int n / of_int k :: real)" by simp
  then have "0 \<le> rne (of_int n / of_int k)" by (rule rne_nonneg)
  with assms NumInt show ?thesis by (auto split: if_splits)
next
  case (NumFloat x)
  with assms have "d = fdiv x (of_int k)" "0 \<le> x" "(0::real) < of_int k" by simp_all
  then show ?thesis using fdiv_nonneg[of x "of_int k"] fdiv_abs_le[of x "of_int k"] by simp
qed

lemma to_float_pos:
  assumes "num_gt_zero h" and "to_float h = Inr x"
  shows "0 \<le> x"
proof (cases h)
  case (NumInt n)
  with assms have "0 \<le> (of_int n :: real)" by simp
  then have "0 \<le> rne (of_int n)" by (rule rne_nonneg)
  with assms NumInt show ?thesis by (auto split: if_splits)
next
  case (NumFloat y)
  with assms show ?thesis by simp
qed

lemma float_truediv_pos:
  assumes "num_gt_zero h" and "0 \<le> y" and "float_truediv h y = Inr d"
  shows "0 \<le> d \<and> \<bar>d\<bar> \<le> float_inf \<and> 0 < y"
proof -
  from assms(3) obtain x where x: "to_float h = Inr x" and y: "y \<noteq> 0" and d: "d = fdiv x y"
    by (auto simp: float_truediv_def split: sum.splits if_splits)
  from to_float_pos[OF assms(1) x] have "0 \<le> x" .
  moreover from y assms(2) have "0 < y" by simp
  ultimately show ?thesis using fdiv_nonneg[of x y] fdiv_abs_le[of x y] d by simp
qed

lemma fmul_nonneg: "0 \<le> x \<Longrightarrow> 0 \<le> y \<Longrightarrow> 0 \<le> fmul x y"
  by (auto simp: fmul_def sgn_if intro!: round_double_nonneg)

lemma get_bounding_box_Inr:
  assumes "get_bounding_box math_cos clat clon h = Inr box"
  shows "num_gt_zero h \<and> -90 \<le> clat \<and> clat \<le> 90 \<and> -180 \<le> clon \<and> clon \<le> 180
       \<and> (\<exists>lat_offset lon_offset.
             int_truediv h 6371 = Inr lat_offset
           \<and> float_truediv h (fmul 6371 (math_cos (radians clat))) = Inr lon_offset
           \<and> box = \<lparr> lat_min = degrees (fsub (radians clat) lat_offset),
                      lon_min = degrees (fsub (radians clon) lon_offset),
                      lat_max = degrees (fadd (radians clat) lat_offset),
                      lon_max = degrees (fadd (radians clon) lon_offset) \<rparr>)"
  using assms
  by (auto simp: get_bounding_box_def Let_def split: if_splits sum.splits)

lemma offset_order:
  assumes "\<bar>a\<bar> \<le> 8" and "0 \<le> d" and "\<bar>d\<bar> \<le> float_inf"
  shows "degrees (fsub a d) \<le> degrees (fadd a d)"
proof -
  have a: "\<bar>a\<bar> < float_inf" using assms(1) float_inf_gt by linarith
  have "fadd a (- d) \<le> fadd a d"
    using a assms(2,3) by (intro fadd_mono2) simp_all
  moreover have "\<bar>fadd a (- d)\<bar> \<le> float_inf" "\<bar>fadd a d\<bar> \<le> float_inf"
    using a assms(3) by (simp_all add: fadd_abs_le)
  ultimately show ?thesis
    unfolding fsub_def by (intro degrees_mono)
qed

text \<open>
  C6. Every box computed from a centre with latitude in [-90, 90] and longitude in
  [-180, 180] and a positive radius has lat_min <= lat_max and lon_min <= lon_max; a zero
  or negative radius is rejected with an assertion error and yields no box. Of the
  library's cosine the proof uses only that its value at the centre's latitude is not
  negative.
\<close>

theorem bounding_box_min_le_max:
  "(\<not> num_gt_zero r \<longrightarrow> get_bounding_box math_cos clat clon r = Inl AssertionError) \<and>
   (-90 \<le> clat \<and> clat \<le> 90 \<and> -180 \<le> clon \<and> clon \<le> 180 \<and> num_gt_zero r
      \<and> 0 \<le> math_cos (radians clat)
      \<and> get_bounding_box math_cos clat clon r = Inr box
    \<longrightarrow> lat_min box \<le> lat_max box \<and> lon_min box \<le> lon_max box)"
proof (intro conjI impI)
  assume "\<not> num_gt_zero r"
  then show "get_bounding_box math_cos clat clon r = Inl AssertionError"
    by (simp add: get_bounding_box_def)
next
  assume a: "-90 \<le> clat \<and> clat \<le> 90 \<and> -180 \<le> clon \<and> clon \<le> 180 \<and> num_gt_zero r
      \<and> 0 \<le> math_cos (radians clat)
      \<and> get_bounding_box math_cos clat clon r = Inr box"
  then have pos: "num_gt_zero r" and c: "0 \<le> math_cos (radians clat)"
    and b: "get_bounding_box math_cos clat clon r = Inr box" by simp_all
  from get_bounding_box_Inr[OF b] obtain lat_offset lon_offset where
    o1: "int_truediv r 6371 = Inr lat_offset"
    and o2: "float_truediv r (fmul 6371 (math_cos (radians clat))) = Inr lon_offset"
    and box: "box = \<lparr> lat_min = degrees (fsub (radians clat) lat_offset),
                      lon_min = degrees (fsub (radians clon) lon_offset),
                      lat_max = degrees (fadd (radians clat) lat_offset),
                      lon_max = degrees (fadd (radians clon) lon_offset) \<rparr>"
    by blast
  have la: "\<bar>radians clat\<bar> \<le> 8" using a by (intro radians_abs) (simp add: abs_le_iff)
  have lo: "\<bar>radians clon\<bar> \<le> 8" using a by (intro radians_abs) (simp add: abs_le_iff)
  have d1: "0 \<le> lat_offset" "\<bar>lat_offset\<bar> \<le> float_inf"
    using int_truediv_pos[OF pos _ o1] by auto
  have "0 \<le> fmul 6371 (math_cos (radians clat))"
    using c by (intro fmul_nonneg) simp_all
  from float_truediv_pos[OF pos this o2] have d2: "0 \<le> lon_offset" "\<bar>lon_offset\<bar> \<le> float_inf"
    by blast+
  show "lat_min box \<le> lat_max box"
    using offset_order[OF la d1] by (simp add: box)
  show "lon_min box \<le> lon_max box"
    using offset_order[OF lo d2] by (simp add: box)
qed

lemma half_even_bound:
  assumes "0 \<le> q" and "q \<le> of_int n"
  shows "half_even q \<le> n"
  using half_even_mono[OF assms(2)] by simp

lemma rne_abs: "\<bar>rne x\<bar> = rne \<bar>x\<bar>"
  using rne_nonneg[of x] rne_nonneg[of "- x"] by (auto simp: abs_if rne_minus)

lemma rne_idem_pos:
  assumes "0 < x"
  shows "rne (rne x) = rne x"
proof -
  let ?e = "ulp_exp x"
  let ?h = "half_even (x / pow2 ?e)"
  have rx: "rne x = of_int ?h * pow2 ?e" using assms by (rule rne_pos_unfold)
  have e: "- 1074 \<le> ?e" by (simp add: ulp_exp_def)
  have "\<lfloor>log 2 x\<rfloor> - 52 \<le> ?e" using assms by (simp add: ulp_exp_def)
  then have "\<lfloor>log 2 x\<rfloor> + 1 \<le> ?e + 53" by simp
  then have "pow2 (\<lfloor>log 2 x\<rfloor> + 1) \<le> pow2 (?e + 53)" by (rule pow2_mono)
  with floor_log2_upper[OF assms] have "x \<le> pow2 (?e + 53)" by simp
  then have "x / pow2 ?e \<le> pow2 (?e + 53) / pow2 ?e" by (simp add: divide_right_mono)
  also have "\<dots> = pow2 53" using pow2_diff[of "?e + 53" ?e] by simp
  also have "\<dots> = of_int (2 ^ 53)" by (simp add: pow2_nat)
  finally have hb: "?h \<le> 2 ^ 53"
    using assms by (intro half_even_bound) simp_all
  have h0: "0 \<le> ?h" using assms by (intro half_even_nonneg) simp
  show ?thesis
  proof (cases "?h = 2 ^ 53")
    case True
    have "rne x = pow2 53 * pow2 ?e"
      unfolding rx True by (simp add: pow2_nat)
    also have "\<dots> = pow2 (?e + 53)" using pow2_add[of ?e 53] by simp
    finally have "rne x = pow2 (?e + 53)" .
    moreover have "rne (pow2 (?e + 53)) = pow2 (?e + 53)"
      using e by (intro rne_pow2) simp
    ultimately show ?thesis by simp
  next
    case False
    with hb h0 have "\<bar>?h\<bar> < 2 ^ 53" by simp
    from rne_dyadic[OF this e] show ?thesis by (simp add: rx)
  qed
qed

lemma rne_idem: "rne (rne x) = rne x"
proof -
  consider "0 < x" | "x = 0" | "x < 0" by linarith
  then show ?thesis
  proof cases
    case 1
    then show ?thesis by (rule rne_idem_pos)
  next
    case 2
    then show ?thesis by simp
  next
    case 3
    then have "rne (rne (- x)) = rne (- x)" by (intro rne_idem_pos) simp
    then show ?thesis by (simp add: rne_minus)
  qed
qed

lemma round_double_idem: "round_double (round_double x) = round_double x"
proof -
  have i: "round_double float_inf = float_inf"
    using rne_float_inf by (intro round_double_fix) simp_all
  consider "float_inf \<le> rne x" | "rne x \<le> - float_inf" | "\<bar>rne x\<bar> < float_inf"
    by linarith
  then show ?thesis
  proof cases
    case 1
    then have "round_double x = float_inf" by (simp add: round_double_def)
    then show ?thesis by (simp add: i)
  next
    case 2
    then have "round_double x = - float_inf"
      unfolding round_double_def min_def max_def
      using float_inf_pos by (auto simp del: float_inf_pos float_inf_nonneg)
    then show ?thesis by (simp add: round_double_minus i)
  next
    case 3
    then have "round_double x = rne x" by (simp add: round_double_def abs_less_iff min_def max_def)
    moreover have "round_double (rne x) = rne x"
      using 3 by (intro round_double_fix rne_idem) simp
    ultimately show ?thesis by simp
  qed
qed

lemma round_double_radToDeg [simp]: "round_double radToDeg = radToDeg"
  by (simp add: radToDeg_def round_double_idem)

lemma round_double_degToRad [simp]: "round_double degToRad = degToRad"
  by (simp add: degToRad_def round_double_idem)

lemma round_double_1 [simp]: "round_double 1 = 1"
  using round_double_of_int[of 1] by simp

lemma round_double_6371 [simp]: "round_double 6371 = 6371"
  using round_double_of_int[of 6371] by simp

lemma rne_1 [simp]: "rne 1 = 1"
  using rne_of_int[of 1] by simp

lemma rne_6371 [simp]: "rne 6371 = 6371"
  using rne_of_int[of 6371] by simp

lemma float_inf_gt_small [simp]: "\<not> float_inf \<le> 1" "\<not> float_inf \<le> 6371" "\<not> float_inf \<le> 0"
  using float_inf_gt by simp_all

lemma rounded_cos_0 [simp]: "rounded_cos 0 = 1"
  by (simp add: rounded_cos_def)

lemma degToRad_finite [simp]: "\<not> float_inf \<le> \<bar>degToRad\<bar>"
  using degToRad_bounds float_inf_gt by (simp add: abs_if)

lemma radToDeg_finite [simp]: "\<not> float_inf \<le> \<bar>radToDeg\<bar>"
  using radToDeg_bounds float_inf_gt by (simp add: abs_if)

lemma radToDeg_pos [simp]: "0 < radToDeg"
  using radToDeg_bounds by simp

lemma radians_0 [simp]: "radians 0 = 0"
  by (simp add: radians_def fmul_def)

lemma degrees_0 [simp]: "degrees 0 = 0"
  by (simp add: degrees_def fmul_def)

lemma degrees_1: "degrees 1 = radToDeg" "degrees (- 1) = - radToDeg"
  by (simp_all add: degrees_def fmul_def round_double_minus)

lemma rne_tiny:
  assumes "\<bar>x\<bar> < pow2 (- 1075)"
  shows "rne x = 0"
proof (cases "x = 0")
  case True
  then show ?thesis by simp
next
  case False
  have h: "pow2 (- 1075) = pow2 (- 1074) / 2"
    using pow2_diff[of "- 1074" 1] by (simp add: pow2_def)
  have "pow2 (- 1075) \<le> pow2 (- 1074 + 53)" by (rule pow2_mono) simp
  with assms have "\<bar>x\<bar> < pow2 (- 1074 + 53)" by simp
  from ulp_exp_le[OF False this] have "ulp_exp x \<le> - 1074" by simp
  moreover have "- 1074 \<le> ulp_exp x" by (simp add: ulp_exp_def)
  ultimately have e: "ulp_exp x = - 1074" by simp
  have "\<bar>x\<bar> / pow2 (- 1074) < 1 / 2"
    using assms unfolding h by (simp add: field_simps)
  moreover have "0 \<le> \<bar>x\<bar> / pow2 (- 1074)" by simp
  ultimately have fl: "\<lfloor>\<bar>x\<bar> / pow2 (- 1074)\<rfloor> = 0"
    and lt: "\<bar>x\<bar> / pow2 (- 1074) - of_int 0 < 1 / 2"
    by (simp_all add: floor_eq_iff)
  have "half_even (\<bar>x\<bar> / pow2 (- 1074)) = 0"
    unfolding half_even_def Let_def fl using lt by simp
  then show ?thesis by (simp add: rne_def e)
qed

lemma round_double_tiny: "\<bar>x\<bar> < pow2 (- 1075) \<Longrightarrow> round_double x = 0"
  by (simp add: round_double_def rne_tiny)

lemma tiny_offsets:
  "round_double (pow2 (- 1074) / 6371) = 0" "round_double (pow2 (- 1073) / 6371) = 0"
proof -
  have h: "pow2 (- 1075) = pow2 (- 1074) / 2" "pow2 (- 1073) = pow2 (- 1074) * 2"
    using pow2_diff[of "- 1074" 1] pow2_add[of "- 1074" 1] by (simp_all add: pow2_def)
  have p: "0 < pow2 (- 1074)" by simp
  have "\<bar>pow2 (- 1074) / 6371\<bar> < pow2 (- 1075)"
    unfolding h using p by (simp add: field_simps)
  then show "round_double (pow2 (- 1074) / 6371) = 0" by (rule round_double_tiny)
  have "\<bar>pow2 (- 1073) / 6371\<bar> < pow2 (- 1075)"
    unfolding h using p by (simp add: field_simps)
  then show "round_double (pow2 (- 1073) / 6371) = 0" by (rule round_double_tiny)
qed

lemma pow2_small_finite [simp]:
  "\<not> float_inf \<le> pow2 (- 1074)" "\<not> float_inf \<le> pow2 (- 1073)"
proof -
  have "pow2 (- 1074) \<le> pow2 0" "pow2 (- 1073) \<le> pow2 0" "pow2 10 \<le> pow2 1024"
    by (rule pow2_mono, simp)+
  moreover have "pow2 0 < pow2 10"
    by (simp add: pow2_nat)
  ultimately have "pow2 (- 1074) < pow2 1024" "pow2 (- 1073) < pow2 1024"
    by linarith+
  then show "\<not> float_inf \<le> pow2 (- 1074)" "\<not> float_inf \<le> pow2 (- 1073)"
    by (simp_all add: float_inf_def)
qed

lemma get_bounding_box_equator:
  "get_bounding_box rounded_cos 0 0 (NumInt 6371) =
     Inr \<lparr> lat_min = - radToDeg, lon_min = - radToDeg, lat_max = radToDeg, lon_max = radToDeg \<rparr>"
  by (simp add: get_bounding_box_def float_truediv_def fmul_def fdiv_def fadd_def fsub_def
        round_double_minus degrees_1)

lemma get_bounding_box_point:
  "get_bounding_box rounded_cos 0 0 (NumFloat (pow2 (- 1074))) =
     Inr \<lparr> lat_min = 0, lon_min = 0, lat_max = 0, lon_max = 0 \<rparr>"
  "get_bounding_box rounded_cos 0 0 (NumFloat (pow2 (- 1073))) =
     Inr \<lparr> lat_min = 0, lon_min = 0, lat_max = 0, lon_max = 0 \<rparr>"
  by (simp_all add: get_bounding_box_def float_truediv_def fmul_def fdiv_def fadd_def fsub_def
        tiny_offsets)


lemma get_bounding_box_rejects:
  "\<not> num_gt_zero r \<or> clat < -90 \<or> 90 < clat \<or> clon < -180 \<or> 180 < clon
   \<Longrightarrow> get_bounding_box math_cos clat clon r = Inl AssertionError"
  by (auto simp: get_bounding_box_def)

lemma int_truediv_fits:
  assumes "num_gt_zero r" "fits_double r"
  shows "\<exists>d. int_truediv r 6371 = Inr d"
proof (cases r)
  case (NumInt n)
  with assms have n: "0 < n" and f: "\<bar>rne (of_int n)\<bar> < float_inf" by simp_all
  have "(of_int n / 6371 :: real) \<le> of_int n" using n by simp
  then have "rne (of_int n / 6371) \<le> rne (of_int n)" by (rule rne_mono)
  moreover have "0 \<le> rne (of_int n / 6371)" using n by (intro rne_nonneg) simp
  ultimately have "\<bar>rne (of_int n / 6371)\<bar> < float_inf" using f by simp
  then show ?thesis using NumInt by simp
next
  case (NumFloat x)
  then show ?thesis by simp
qed

lemma to_float_fits: "fits_double r \<Longrightarrow> \<exists>x. to_float r = Inr x"
  by (cases r) simp_all

lemma to_float_not_fits: "\<not> fits_double r \<Longrightarrow> to_float r = Inl OverflowError"
  by (cases r) simp_all

lemma int_truediv_Inl: "int_truediv r k = Inl e \<Longrightarrow> e = OverflowError"
  by (cases r) (simp_all split: if_splits)

lemma get_bounding_box_overflow:
  assumes "num_gt_zero r" "-90 \<le> clat" "clat \<le> 90" "-180 \<le> clon" "clon \<le> 180"
    and "\<not> fits_double r"
  shows "get_bounding_box math_cos clat clon r = Inl OverflowError"
proof (cases "int_truediv r 6371")
  case (Inl e)
  with int_truediv_Inl[OF Inl] assms show ?thesis
    by (simp add: get_bounding_box_def)
next
  case (Inr d)
  with to_float_not_fits[OF assms(6)] assms show ?thesis
    by (simp add: get_bounding_box_def float_truediv_def)
qed

lemma get_bounding_box_valid:
  assumes "num_gt_zero r" "-90 \<le> clat" "clat \<le> 90" "-180 \<le> clon" "clon \<le> 180"
    and "fits_double r"
  shows "(fmul 6371 (math_cos (radians clat)) = 0
            \<longrightarrow> get_bounding_box math_cos clat clon r = Inl ZeroDivisionError)
       \<and> (fmul 6371 (math_cos (radians clat)) \<noteq> 0
            \<longrightarrow> (\<exists>box. get_bounding_box math_cos clat clon r = Inr box))"
proof -
  from int_truediv_fits[OF assms(1,6)] obtain d where d: "int_truediv r 6371 = Inr d" ..
  from to_float_fits[OF assms(6)] obtain x where x: "to_float r = Inr x" ..
  show ?thesis
    using assms d x by (simp add: get_bounding_box_def float_truediv_def Let_def)
qed

text \<open>
  C5 (amended). A call that violates a precondition raises \<open>AssertionError\<close>. A call that
  satisfies all three returns a box, with two exceptions: an \<open>int\<close> radius that does not fit
  a double raises \<open>OverflowError\<close>, and a parallel radius of zero raises
  \<open>ZeroDivisionError\<close>.
\<close>

theorem get_bounding_box_errors:
  "(\<not> num_gt_zero r \<or> clat < -90 \<or> 90 < clat \<or> clon < -180 \<or> 180 < clon
      \<longrightarrow> get_bounding_box math_cos clat clon r = Inl AssertionError)
   \<and> (num_gt_zero r \<and> -90 \<le> clat \<and> clat \<le> 90 \<and> -180 \<le> clon \<and> clon \<le> 180
      \<longrightarrow> (\<not> fits_double r \<longrightarrow> get_bounding_box math_cos clat clon r = Inl OverflowError)
        \<and> (fits_double r \<and> fmul 6371 (math_cos (radians clat)) = 0
              \<longrightarrow> get_bounding_box math_cos clat clon r = Inl ZeroDivisionError)
        \<and> (fits_double r \<and> fmul 6371 (math_cos (radians clat)) \<noteq> 0
              \<longrightarrow> (\<exists>box. get_bounding_box math_cos clat clon r = Inr box)))"
  using get_bounding_box_rejects[of r clat clon math_cos]
    get_bounding_box_overflow[of r clat clon math_cos]
    get_bounding_box_valid[of r clat clon math_cos]
  by blast

lemma fmul_6371_1 [simp]: "fmul 6371 1 = 6371"
  by (simp add: fmul_def)

lemma fits_double_6371 [simp]: "fits_double (NumInt 6371)"
  using float_inf_gt by simp

theorem get_bounding_box_errors_witness:
  "get_bounding_box rounded_cos 0 0 (NumInt 0) = Inl AssertionError
   \<and> get_bounding_box rounded_cos 91 0 (NumInt 6371) = Inl AssertionError
   \<and> (\<exists>box. get_bounding_box rounded_cos 0 0 (NumInt 6371) = Inr box)"
  using get_bounding_box_errors[of "NumInt 0" 0 0 rounded_cos]
    get_bounding_box_errors[of "NumInt 6371" 91 0 rounded_cos]
    get_bounding_box_errors[of "NumInt 6371" 0 0 rounded_cos] fits_double_6371
  by (simp del: fits_double.simps)

lemma big_quotient: "(of_int (6371 * 2 ^ 1024) / of_int 6371 :: real) = float_inf"
proof -
  have "(of_int (6371 * 2 ^ 1024) :: real) = 6371 * of_int (2 ^ nat 1024)"
    by (simp only: of_int_mult of_int_numeral nat_numeral)
  also have "\<dots> = 6371 * pow2 1024"
    by (subst pow2_nat) simp_all
  finally show ?thesis by (simp add: float_inf_def)
qed

text \<open>
  The claim as stated fails: the three preconditions hold for the centre (0, 0) and the
  \<open>int\<close> radius \<open>6371 * 2 ** 1024\<close>, and the call raises \<open>OverflowError\<close>.
\<close>

theorem get_bounding_box_valid_input_raises_counterexample:
  "num_gt_zero (NumInt (6371 * 2 ^ 1024))
   \<and> get_bounding_box rounded_cos 0 0 (NumInt (6371 * 2 ^ 1024)) = Inl OverflowError"
proof -
  have "rne (of_int (6371 * 2 ^ 1024) / of_int 6371) = float_inf"
    by (simp only: big_quotient rne_float_inf)
  then have "int_truediv (NumInt (6371 * 2 ^ 1024)) 6371 = Inl OverflowError"
    by (simp only: int_truediv.simps) simp
  moreover have "num_gt_zero (NumInt (6371 * 2 ^ 1024))" by simp
  ultimately show ?thesis
    by (simp add: get_bounding_box_def del: int_truediv.simps num_gt_zero.simps)
qed

text \<open>
  A positive double is at least \<open>2 ^ -1074\<close>. When the cosine of the centre's latitude is
  a positive double (at most 1), the parallel radius is not zero, so every valid call with
  a radius that fits a double returns a box, at the poles too.
\<close>

lemma parallel_radius_pos:
  assumes "pow2 (- 1074) \<le> c" "c \<le> 1"
  shows "fmul 6371 c \<noteq> 0"
proof -
  have c: "0 < c" using assms(1) pow2_pos[of "- 1074"] by linarith
  then have "\<not> float_inf \<le> \<bar>c\<bar>" using assms(2) float_inf_gt by linarith
  then have e: "fmul 6371 c = round_double (6371 * c)" by (simp add: fmul_def)
  have "pow2 (- 1074) \<le> 6371 * c" using assms(1) c by linarith
  then have "round_double (pow2 (- 1074)) \<le> round_double (6371 * c)" by (rule round_double_mono)
  then have "pow2 (- 1074) \<le> fmul 6371 c" by (simp add: e round_double_pow2)
  then show ?thesis using pow2_pos[of "- 1074"] by linarith
qed

lemma get_bounding_box_returns:
  assumes "num_gt_zero r" "-90 \<le> clat" "clat \<le> 90" "-180 \<le> clon" "clon \<le> 180"
    and "fits_double r"
    and "pow2 (- 1074) \<le> math_cos (radians clat)" "math_cos (radians clat) \<le> 1"
  shows "\<exists>box. get_bounding_box math_cos clat clon r = Inr box"
  using get_bounding_box_valid[OF assms(1-6), of math_cos] parallel_radius_pos[OF assms(7,8)]
  by blast

theorem bounding_box_min_le_max_witness:
  "get_bounding_box rounded_cos 0 0 (NumInt 0) = Inl AssertionError
   \<and> get_bounding_box rounded_cos 0 0 (NumFloat (- 5)) = Inl AssertionError
   \<and> get_bounding_box rounded_cos 0 0 (NumInt 6371)
       = Inr \<lparr> lat_min = - radToDeg, lon_min = - radToDeg, lat_max = radToDeg, lon_max = radToDeg \<rparr>
   \<and> - radToDeg \<le> radToDeg"
  using bounding_box_min_le_max[where r = "NumInt 0" and math_cos = rounded_cos and clat = 0 and clon = 0]
    bounding_box_min_le_max[where r = "NumFloat (- 5)" and math_cos = rounded_cos and clat = 0 and clon = 0]
    bounding_box_min_le_max[where r = "NumInt 6371" and math_cos = rounded_cos and clat = 0 and clon = 0
      and box = "\<lparr> lat_min = - radToDeg, lon_min = - radToDeg, lat_max = radToDeg, lon_max = radToDeg \<rparr>"]
    get_bounding_box_equator
  by simp


lemma fdiv_6371: "\<not> float_inf \<le> \<bar>x\<bar> \<Longrightarrow> fdiv x 6371 = round_double (x / 6371)"
  by (simp add: fdiv_def)

lemma fdiv_inf: "float_inf \<le> x \<Longrightarrow> 0 < y \<Longrightarrow> fdiv x y = float_inf"
proof -
  assume x: "float_inf \<le> x" and y: "0 < y"
  from x float_inf_pos have "0 < x" by linarith
  with x y show ?thesis by (simp add: fdiv_def)
qed





lemma int_truediv_abs: "int_truediv a k = Inr d \<Longrightarrow> \<bar>d\<bar> \<le> float_inf"
  using fdiv_abs_le by (cases a) (auto split: if_splits)

lemma float_truediv_abs: "float_truediv a y = Inr d \<Longrightarrow> \<bar>d\<bar> \<le> float_inf"
  using fdiv_abs_le by (auto simp: float_truediv_def split: sum.splits if_splits)

lemma offsets_nested:
  assumes "\<bar>a\<bar> \<le> 8" and "d1 \<le> d2" and "\<bar>d1\<bar> \<le> float_inf" and "\<bar>d2\<bar> \<le> float_inf"
  shows "degrees (fsub a d2) \<le> degrees (fsub a d1) \<and> degrees (fadd a d1) \<le> degrees (fadd a d2)"
proof -
  have a: "\<bar>a\<bar> < float_inf" using assms(1) float_inf_gt by linarith
  have "fadd a (- d2) \<le> fadd a (- d1)" "fadd a d1 \<le> fadd a d2"
    using a assms(2-4) by (intro fadd_mono2; simp)+
  moreover have "\<bar>fadd a (- d1)\<bar> \<le> float_inf" "\<bar>fadd a d1\<bar> \<le> float_inf"
    "\<bar>fadd a (- d2)\<bar> \<le> float_inf" "\<bar>fadd a d2\<bar> \<le> float_inf"
    using a assms(3,4) by (simp_all add: fadd_abs_le)
  ultimately show ?thesis
    unfolding fsub_def by (intro conjI degrees_mono)
qed






lemma eta_le_u: "128 * pow2 (- 1075) \<le> pow2 (- 53)"
proof -
  have "pow2 (- 1075) \<le> pow2 (- 60)" by (rule pow2_mono) simp
  moreover have "pow2 (- 53) = pow2 (- 60) * 128"
    using pow2_add[of "- 60" 7] by (simp add: pow2_nat)
  ultimately show ?thesis by simp
qed

lemma d0_eq: "pow2 (- 43) = 1024 * pow2 (- 53)"
  using pow2_add[of "- 53" 10] by (simp add: pow2_nat)

lemma pow2_43_val: "pow2 (- 43) = 1 / 8796093022208"
  using pow2_neg_nat[of 43] by simp

lemma rd_err:
  assumes "\<bar>y\<bar> \<le> B" "B \<le> 8192"
  shows "\<bar>round_double y - y\<bar> \<le> B * pow2 (- 53) + pow2 (- 1075)"
proof -
  have "pow2 13 \<le> pow2 1023" by (rule pow2_mono) simp
  with assms have "\<bar>y\<bar> \<le> pow2 1023" by (simp add: pow2_numeral_vals)
  from round_double_error[OF this]
  have "\<bar>round_double y - y\<bar> \<le> \<bar>y\<bar> * pow2 (- 53) + pow2 (- 1075)" .
  moreover have "\<bar>y\<bar> * pow2 (- 53) \<le> B * pow2 (- 53)"
    using assms(1) by (intro mult_right_mono) simp_all
  ultimately show ?thesis by linarith
qed

lemma DR_close: "\<bar>degToRad * radToDeg - 1\<bar> \<le> 5 * pow2 (- 53)"
proof -
  define p where "p = M_PI / 180"
  define q where "q = 180 / M_PI"
  define u where "u = pow2 (- 53)"
  define h where "h = pow2 (- 1075)"
  have pq: "p * q = 1" by (simp add: p_def q_def M_PI_def)
  have p: "0 \<le> p" "p \<le> 1 / 32" using M_PI_bounds by (simp_all add: p_def)
  have q: "0 \<le> q" "q \<le> 64" using M_PI_bounds by (simp_all add: q_def field_simps)
  have u: "0 \<le> u" "128 * h \<le> u" "0 \<le> h" using eta_le_u by (simp_all add: u_def h_def)
  have "\<bar>p\<bar> \<le> pow2 1023"
  proof -
    have "pow2 0 \<le> pow2 1023" by (rule pow2_mono) simp
    with p show ?thesis by simp
  qed
  from round_double_error[OF this] have "\<bar>degToRad - p\<bar> \<le> \<bar>p\<bar> * u + h"
    by (simp add: degToRad_def p_def u_def h_def)
  moreover have "\<bar>p\<bar> * u \<le> 1 / 32 * u" using p u by (intro mult_right_mono) simp_all
  ultimately have e1: "\<bar>degToRad - p\<bar> \<le> u / 32 + h" by simp
  have "\<bar>q\<bar> \<le> 64" using q by simp
  from rd_err[OF this] have e2: "\<bar>radToDeg - q\<bar> \<le> 64 * u + h"
    by (simp add: radToDeg_def q_def u_def h_def)
  have R: "\<bar>radToDeg\<bar> \<le> 64" using radToDeg_bounds by simp
  have "degToRad * radToDeg - 1 = (degToRad - p) * radToDeg + p * (radToDeg - q)"
    using pq by (simp add: algebra_simps)
  then have "\<bar>degToRad * radToDeg - 1\<bar> \<le> \<bar>degToRad - p\<bar> * \<bar>radToDeg\<bar> + \<bar>p\<bar> * \<bar>radToDeg - q\<bar>"
    by (simp add: abs_mult[symmetric]) 
  also have "\<dots> \<le> (u / 32 + h) * 64 + 1 / 32 * (64 * u + h)"
    using e1 e2 R p u by (intro add_mono mult_mono) simp_all
  also have "\<dots> \<le> 5 * u" using u by (simp add: add_divide_distrib)
  finally show ?thesis by (simp add: u_def)
qed

lemma degrees_upper_core:
  assumes "\<bar>x\<bar> \<le> 180"
  shows "x < degrees (fadd (radians x) (pow2 (- 43)))"
proof -
  define u where "u = pow2 (- 53)"
  define h where "h = pow2 (- 1075)"
  define d0 where "d0 = pow2 (- 43)"
  define a where "a = radians x"
  define s where "s = fadd a d0"
  define t where "t = degrees s"
  define e1 where "e1 = a - x * degToRad"
  define e2 where "e2 = s - (a + d0)"
  define e3 where "e3 = t - s * radToDeg"
  have u: "0 < u" "128 * h \<le> u" "0 < h" "d0 = 1024 * u"
    using eta_le_u d0_eq by (simp_all add: u_def h_def d0_def)
  have u1: "u \<le> 1 / 1024"
  proof -
    have "pow2 (- 53) \<le> pow2 (- 10)" by (rule pow2_mono) simp
    then show ?thesis using pow2_neg_nat[of 10] by (simp add: u_def)
  qed
  have D: "0 \<le> degToRad" "degToRad \<le> 1 / 32" using degToRad_bounds by simp_all
  have R: "32 \<le> radToDeg" "radToDeg \<le> 64" using radToDeg_bounds by simp_all
  have xf: "\<not> float_inf \<le> \<bar>x\<bar>" using assms float_inf_gt by linarith
  have a_eq: "a = round_double (x * degToRad)"
    using xf by (simp add: a_def radians_def fmul_def)
  have "\<bar>x * degToRad\<bar> \<le> 180 * (1 / 32)"
    unfolding abs_mult using assms D by (intro mult_mono) simp_all
  then have "\<bar>x * degToRad\<bar> \<le> 6" by simp
  from rd_err[OF this] have b1: "\<bar>e1\<bar> \<le> 6 * u + h"
    by (simp add: e1_def a_eq u_def h_def)
  have a8: "\<bar>a\<bar> \<le> 8" unfolding a_def using assms by (rule radians_abs)
  have af: "\<not> float_inf \<le> \<bar>a\<bar>" using a8 float_inf_gt by linarith
  have d0f: "\<not> float_inf \<le> \<bar>d0\<bar>" "0 < d0" "d0 \<le> 1"
    using u u1 float_inf_gt by (simp_all add: abs_if)
  have s_eq: "s = round_double (a + d0)"
    using af d0f by (simp add: s_def fadd_def)
  have "\<bar>a + d0\<bar> \<le> 9" using a8 d0f by linarith
  from rd_err[OF this] have b2: "\<bar>e2\<bar> \<le> 9 * u + h"
    by (simp add: e2_def s_eq u_def h_def)
  have s10: "\<bar>s\<bar> \<le> 10"
    using b2 \<open>\<bar>a + d0\<bar> \<le> 9\<close> u u1 unfolding e2_def by linarith
  have sf: "\<not> float_inf \<le> \<bar>s\<bar>" using s10 float_inf_gt by linarith
  have t_eq: "t = round_double (s * radToDeg)"
    using sf by (simp add: t_def degrees_def fmul_def)
  have "\<bar>s * radToDeg\<bar> \<le> 10 * 64"
    unfolding abs_mult using s10 R by (intro mult_mono) simp_all
  then have "\<bar>s * radToDeg\<bar> \<le> 640" by simp
  from rd_err[OF this] have b3: "\<bar>e3\<bar> \<le> 640 * u + h"
    by (simp add: e3_def t_eq u_def h_def)
  have A: "1008 * u \<le> e1 + e2 + d0"
    using b1 b2 u by linarith
  have "1008 * u * 32 \<le> (e1 + e2 + d0) * radToDeg"
    using A R u by (intro mult_mono) simp_all
  then have B: "32256 * u \<le> (e1 + e2 + d0) * radToDeg" by simp
  have "\<bar>x * (degToRad * radToDeg - 1)\<bar> \<le> 180 * (5 * u)"
    unfolding abs_mult using assms DR_close u by (intro mult_mono) (simp_all add: u_def)
  then have C: "- (900 * u) \<le> x * (degToRad * radToDeg - 1)" by linarith
  have "t - x = x * (degToRad * radToDeg - 1) + (e1 + e2 + d0) * radToDeg + e3"
    by (simp add: e1_def e2_def e3_def algebra_simps)
  with B C b3 u have "0 < t - x" by linarith
  then show ?thesis by (simp add: t_def s_def a_def d0_def)
qed

lemma fmul_minus1: "fmul (- x) y = - fmul x y"
  by (simp add: fmul_def round_double_minus sgn_minus)

lemma fadd_minus: "fadd (- x) (- y) = - fadd x y"
  using round_double_minus[of "x + y"] by (simp add: fadd_def)

lemma degrees_lower_core:
  assumes "\<bar>x\<bar> \<le> 180"
  shows "degrees (fsub (radians x) (pow2 (- 43))) < x"
proof -
  have "- x < degrees (fadd (radians (- x)) (pow2 (- 43)))"
    using assms by (intro degrees_upper_core) simp
  moreover have "degrees (fadd (radians (- x)) (pow2 (- 43)))
                   = - degrees (fsub (radians x) (pow2 (- 43)))"
    using fadd_minus[of "radians x" "- pow2 (- 43)"]
    by (simp add: radians_def degrees_def fmul_minus1 fsub_def)
  ultimately show ?thesis by simp
qed

lemma contains_strictly:
  assumes "\<bar>x\<bar> \<le> 180" and "pow2 (- 43) \<le> d" and "\<bar>d\<bar> \<le> float_inf"
  shows "degrees (fsub (radians x) d) < x \<and> x < degrees (fadd (radians x) d)"
proof -
  have a8: "\<bar>radians x\<bar> \<le> 8" using assms(1) by (rule radians_abs)
  have d0: "\<bar>pow2 (- 43)\<bar> \<le> float_inf"
    using assms(2,3) by simp
  from offsets_nested[OF a8 assms(2) d0 assms(3)]
    degrees_upper_core[OF assms(1)] degrees_lower_core[OF assms(1)]
  show ?thesis by linarith
qed

lemma rne_43: "rne (pow2 (- 43)) = pow2 (- 43)" "round_double (pow2 (- 43)) = pow2 (- 43)"
  by (simp_all add: rne_pow2 round_double_pow2)

lemma int_truediv_ge:
  assumes "1 / 10 ^ 9 \<le> num_val r" and "int_truediv r 6371 = Inr d"
  shows "pow2 (- 43) \<le> d"
proof (cases r)
  case (NumInt n)
  with assms(1) have "0 < (of_int n :: real)" by simp
  then have "1 \<le> n" by simp
  then have "(1::real) \<le> of_int n" by (simp only: of_int_1_le_iff)
  then have "pow2 (- 43) \<le> of_int n / 6371" unfolding pow2_43_val by simp
  then have "rne (pow2 (- 43)) \<le> rne (of_int n / 6371)" by (rule rne_mono)
  with assms(2) NumInt show ?thesis by (simp add: rne_43 split: if_splits)
next
  case (NumFloat x)
  with assms have x: "1 / 10 ^ 9 \<le> x" and d: "d = fdiv x 6371" by simp_all
  show ?thesis
  proof (cases "float_inf \<le> \<bar>x\<bar>")
    case True
    with x have "float_inf \<le> x" by (simp add: abs_if split: if_splits)
    then have "d = float_inf" unfolding d by (intro fdiv_inf) simp_all
    moreover have "pow2 (- 43) \<le> float_inf" unfolding float_inf_def by (rule pow2_mono) simp
    ultimately show ?thesis by simp
  next
    case False
    have "pow2 (- 43) \<le> x / 6371" unfolding pow2_43_val using x by simp
    then have "round_double (pow2 (- 43)) \<le> round_double (x / 6371)" by (rule round_double_mono)
    then show ?thesis unfolding d fdiv_6371[OF False] by (simp add: rne_43)
  qed
qed

lemma to_float_ge:
  assumes "1 / 10 ^ 9 \<le> num_val r" and "to_float r = Inr x"
  shows "1 / 10 ^ 9 \<le> x"
proof (cases r)
  case (NumInt n)
  with assms(1) have "0 < (of_int n :: real)" by simp
  then have "1 \<le> n" by simp
  then have "(1::real) \<le> of_int n" by (simp only: of_int_1_le_iff)
  then have "rne 1 \<le> rne (of_int n)" by (rule rne_mono)
  with assms(2) NumInt have "1 \<le> x" by (simp split: if_splits)
  then show ?thesis by simp
next
  case (NumFloat y)
  with assms show ?thesis by simp
qed

lemma parallel_radius_bounds:
  assumes "0 \<le> c" "c \<le> 1"
  shows "0 \<le> fmul 6371 c \<and> fmul 6371 c \<le> 6371"
proof -
  have "\<not> float_inf \<le> \<bar>c\<bar>" using assms float_inf_gt by linarith
  then have e: "fmul 6371 c = round_double (6371 * c)" by (simp add: fmul_def)
  have "round_double (6371 * c) \<le> round_double 6371"
    using assms by (intro round_double_mono) simp
  moreover have "0 \<le> round_double (6371 * c)"
    using assms by (intro round_double_nonneg) simp
  ultimately show ?thesis by (simp add: e)
qed

lemma float_truediv_ge:
  assumes "1 / 10 ^ 9 \<le> num_val r" and "float_truediv r y = Inr d" and "0 \<le> y" and "y \<le> 6371"
  shows "pow2 (- 43) \<le> d"
proof -
  from assms(2) obtain x where x: "to_float r = Inr x" and y0: "y \<noteq> 0" and d: "d = fdiv x y"
    by (auto simp: float_truediv_def split: sum.splits if_splits)
  from to_float_ge[OF assms(1) x] have xg: "1 / 10 ^ 9 \<le> x" .
  from y0 assms(3) have y: "0 < y" by simp
  show ?thesis
  proof (cases "float_inf \<le> \<bar>x\<bar>")
    case True
    with xg have "float_inf \<le> x" by (simp add: abs_if split: if_splits)
    then have "d = float_inf" unfolding d using y by (rule fdiv_inf)
    moreover have "pow2 (- 43) \<le> float_inf" unfolding float_inf_def by (rule pow2_mono) simp
    ultimately show ?thesis by simp
  next
    case False
    have yf: "\<not> float_inf \<le> \<bar>y\<bar>" using y assms(4) float_inf_gt by linarith
    have x0: "0 \<le> x" using xg by (simp add: order_trans[rotated, OF xg])
    have "x / 6371 \<le> x / y" using x0 y assms(4) by (intro divide_left_mono) simp_all
    moreover have "pow2 (- 43) \<le> x / 6371" unfolding pow2_43_val using xg by simp
    ultimately have "pow2 (- 43) \<le> x / y" by linarith
    then have "round_double (pow2 (- 43)) \<le> round_double (x / y)" by (rule round_double_mono)
    then show ?thesis unfolding d using False yf by (simp add: fdiv_def rne_43)
  qed
qed

text \<open>
  C2 (amended). For a radius of at least \<open>1e-9\<close> km (every positive \<open>int\<close> radius is one),
  every box returned strictly contains its centre. Of the library's cosine the proof uses
  that its value at the centre's latitude lies in [0, 1].
\<close>

theorem bounding_box_contains_center:
  assumes "get_bounding_box math_cos clat clon r = Inr box"
    and "1 / 10 ^ 9 \<le> num_val r"
    and "0 \<le> math_cos (radians clat)" and "math_cos (radians clat) \<le> 1"
  shows "lat_min box < clat \<and> clat < lat_max box \<and> lon_min box < clon \<and> clon < lon_max box"
proof -
  from get_bounding_box_Inr[OF assms(1)] obtain lat_offset lon_offset where
    v: "-90 \<le> clat" "clat \<le> 90" "-180 \<le> clon" "clon \<le> 180"
    and o1: "int_truediv r 6371 = Inr lat_offset"
    and o2: "float_truediv r (fmul 6371 (math_cos (radians clat))) = Inr lon_offset"
    and box: "box = \<lparr> lat_min = degrees (fsub (radians clat) lat_offset),
                      lon_min = degrees (fsub (radians clon) lon_offset),
                      lat_max = degrees (fadd (radians clat) lat_offset),
                      lon_max = degrees (fadd (radians clon) lon_offset) \<rparr>"
    by blast
  have la: "\<bar>clat\<bar> \<le> 180" and lo: "\<bar>clon\<bar> \<le> 180" using v by (simp_all add: abs_le_iff)
  from parallel_radius_bounds[OF assms(3,4)]
  have pr: "0 \<le> fmul 6371 (math_cos (radians clat))" "fmul 6371 (math_cos (radians clat)) \<le> 6371"
    by simp_all
  from contains_strictly[OF la int_truediv_ge[OF assms(2) o1] int_truediv_abs[OF o1]]
    contains_strictly[OF lo float_truediv_ge[OF assms(2) o2 pr] float_truediv_abs[OF o2]]
  show ?thesis by (simp add: box)
qed

theorem bounding_box_contains_center_witness:
  "get_bounding_box rounded_cos 0 0 (NumInt 6371)
     = Inr \<lparr> lat_min = - radToDeg, lon_min = - radToDeg, lat_max = radToDeg, lon_max = radToDeg \<rparr>
   \<and> - radToDeg < 0 \<and> 0 < radToDeg"
  using bounding_box_contains_center[OF get_bounding_box_equator] get_bounding_box_equator
  by simp

text \<open>
  The claim as stated fails: for the centre (0, 0) and the radius \<open>5e-324\<close> (the double
  \<open>2 ** -1074\<close>) both offsets round to zero and the box is the centre itself.
\<close>

theorem bounding_box_contains_center_counterexample:
  "num_gt_zero (NumFloat (pow2 (- 1074)))
   \<and> get_bounding_box rounded_cos 0 0 (NumFloat (pow2 (- 1074)))
       = Inr \<lparr> lat_min = 0, lon_min = 0, lat_max = 0, lon_max = 0 \<rparr>
   \<and> \<not> lat_min \<lparr> lat_min = 0, lon_min = 0, lat_max = 0, lon_max = (0::real) \<rparr> < 0"
  by (simp add: get_bounding_box_point)

lemma round_double_frac:
  assumes "\<bar>m\<bar> < 2 ^ 53" and "n \<le> 1074"
  shows "round_double (of_int m / 2 ^ n) = of_int m / 2 ^ n"
  using round_double_dyadic[of m "- int n"] assms by (simp add: pow2_neg_nat)

lemma M_PI_bounds2: "314 / 100 < M_PI" "M_PI < 315 / 100"
  by (simp_all add: M_PI_def)

lemma degToRad_bounds2: "17 / 1024 \<le> degToRad" "degToRad \<le> 18 / 1024"
proof -
  have a: "round_double (17 / 1024) = 17 / 1024"
    using round_double_frac[of 17 10] by simp
  have b: "round_double (18 / 1024) = 18 / 1024"
    using round_double_frac[of 18 10] by simp
  have "17 / 1024 \<le> M_PI / 180" "M_PI / 180 \<le> 18 / 1024"
    using M_PI_bounds2 by simp_all
  from round_double_between[OF a b this]
  show "17 / 1024 \<le> degToRad" "degToRad \<le> 18 / 1024"
    by (simp_all add: degToRad_def)
qed

lemma radToDeg_bounds2: "57 \<le> radToDeg" "radToDeg \<le> 58"
proof -
  have a: "round_double 57 = 57"
    using round_double_of_int[of 57] by simp
  have b: "round_double 58 = 58"
    using round_double_of_int[of 58] by simp
  have "57 \<le> 180 / M_PI" "180 / M_PI \<le> 58"
    using M_PI_bounds2 M_PI_bounds by (simp_all add: field_simps)
  from round_double_between[OF a b this]
  show "57 \<le> radToDeg" "radToDeg \<le> 58"
    by (simp_all add: radToDeg_def)
qed

lemma radians_80: "85 / 64 \<le> radians 80" "radians 80 \<le> 45 / 32"
proof -
  have a: "round_double (85 / 64) = 85 / 64"
    using round_double_frac[of 85 6] by simp
  have b: "round_double (45 / 32) = 45 / 32"
    using round_double_frac[of 45 5] by simp
  have "85 / 64 \<le> 80 * degToRad" "80 * degToRad \<le> 45 / 32"
    using degToRad_bounds2 by simp_all
  from round_double_between[OF a b this]
  show "85 / 64 \<le> radians 80" "radians 80 \<le> 45 / 32"
    using float_inf_gt by (simp_all add: radians_def fmul_def)
qed

lemma lon_min_80: "18 \<le> degrees (fsub (radians 80) 1)" "degrees (fsub (radians 80) 1) \<le> 24"
proof -
  define s where "s = fsub (radians 80) 1"
  have a: "round_double (21 / 64) = 21 / 64"
    using round_double_frac[of 21 6] by simp
  have b: "round_double (13 / 32) = 13 / 32"
    using round_double_frac[of 13 5] by simp
  have f: "\<not> float_inf \<le> \<bar>radians 80\<bar>"
    using radians_80 float_inf_gt by (simp add: abs_if)
  have "21 / 64 \<le> radians 80 + - 1" "radians 80 + - 1 \<le> 13 / 32"
    using radians_80 by simp_all
  from round_double_between[OF a b this]
  have s: "21 / 64 \<le> s" "s \<le> 13 / 32"
    using f by (simp_all add: s_def fsub_def fadd_def)
  have sf: "\<not> float_inf \<le> \<bar>s\<bar>" using s float_inf_gt by (simp add: abs_if)
  have c: "round_double 18 = 18" using round_double_of_int[of 18] by simp
  have d: "round_double 24 = 24" using round_double_of_int[of 24] by simp
  have "21 / 64 * 57 \<le> s * radToDeg"
    using s radToDeg_bounds2 by (intro mult_mono) simp_all
  moreover have "s * radToDeg \<le> 13 / 32 * 58"
    using s radToDeg_bounds2 by (intro mult_mono) simp_all
  ultimately have "18 \<le> s * radToDeg" "s * radToDeg \<le> 24" by simp_all
  from round_double_between[OF c d this]
  show "18 \<le> degrees (fsub (radians 80) 1)" "degrees (fsub (radians 80) 1) \<le> 24"
    using sf by (simp_all add: degrees_def fmul_def s_def[symmetric])
qed

lemma lon_max_80: "132 \<le> degrees (fadd (radians 80) 1)" "degrees (fadd (radians 80) 1) \<le> 140"
proof -
  define s where "s = fadd (radians 80) 1"
  have a: "round_double (149 / 64) = 149 / 64"
    using round_double_frac[of 149 6] by simp
  have b: "round_double (77 / 32) = 77 / 32"
    using round_double_frac[of 77 5] by simp
  have f: "\<not> float_inf \<le> \<bar>radians 80\<bar>"
    using radians_80 float_inf_gt by (simp add: abs_if)
  have "149 / 64 \<le> radians 80 + 1" "radians 80 + 1 \<le> 77 / 32"
    using radians_80 by simp_all
  from round_double_between[OF a b this]
  have s: "149 / 64 \<le> s" "s \<le> 77 / 32"
    using f by (simp_all add: s_def fadd_def)
  have sf: "\<not> float_inf \<le> \<bar>s\<bar>" using s float_inf_gt by (simp add: abs_if)
  have c: "round_double 132 = 132" using round_double_of_int[of 132] by simp
  have d: "round_double 140 = 140" using round_double_of_int[of 140] by simp
  have "149 / 64 * 57 \<le> s * radToDeg"
    using s radToDeg_bounds2 by (intro mult_mono) simp_all
  moreover have "s * radToDeg \<le> 77 / 32 * 58"
    using s radToDeg_bounds2 by (intro mult_mono) simp_all
  ultimately have "132 \<le> s * radToDeg" "s * radToDeg \<le> 140" by simp_all
  from round_double_between[OF c d this]
  show "132 \<le> degrees (fadd (radians 80) 1)" "degrees (fadd (radians 80) 1) \<le> 140"
    using sf by (simp_all add: degrees_def fmul_def s_def[symmetric])
qed

lemma get_bounding_box_equator_80:
  "get_bounding_box rounded_cos 0 80 (NumInt 6371) =
     Inr \<lparr> lat_min = - radToDeg, lon_min = degrees (fsub (radians 80) 1),
           lat_max = radToDeg, lon_max = degrees (fadd (radians 80) 1) \<rparr>"
  by (simp add: get_bounding_box_def float_truediv_def fmul_def fdiv_def
        round_double_minus degrees_1 Let_def
        fadd_def[of 0] fsub_def[of 0])


section \<open>Properties of the selection of ideal listings\<close>

lemma map_raise_Inr_length: "map_raise f xs = Inr ys \<Longrightarrow> length ys = length xs"
  by (induction xs arbitrary: ys) (auto split: sum.splits)

lemma map_raise_Inr_nth:
  "map_raise f xs = Inr ys \<Longrightarrow> i < length xs \<Longrightarrow> f (xs ! i) = Inr (ys ! i)"
proof (induction xs arbitrary: ys i)
  case Nil
  then show ?case by simp
next
  case (Cons x xs)
  then show ?case by (cases i) (auto split: sum.splits)
qed

lemma count_list_filter: "count_list (filter P xs) x = (if P x then count_list xs x else 0)"
  by (induction xs) auto

lemma count_list_concat: "count_list (concat xss) x = sum_list (map (\<lambda>xs. count_list xs x) xss)"
  by (induction xss) auto

lemma sum_list_if_const:
  "sum_list (map (\<lambda>b. if P b then c else 0) bs) = c * length (filter P bs)"
  by (induction bs) auto

lemma count_list_distinct: "distinct xs \<Longrightarrow> count_list xs x = (if x \<in> set xs then 1 else 0)"
  by (induction xs) auto

lemma count_list_le_1_distinct: "(\<And>x. count_list ys x \<le> 1) \<Longrightarrow> distinct ys"
proof (induction ys)
  case Nil
  then show ?case by simp
next
  case (Cons y ys)
  have "count_list ys x \<le> 1" for x
    using Cons.prems[of x] by (simp split: if_splits)
  then have "distinct ys" by (rule Cons.IH)
  moreover have "y \<notin> set ys"
    using Cons.prems[of y] by (simp add: count_list_0_iff)
  ultimately show ?case by simp
qed

lemma set_drop_duplicates_keep_False:
  "x \<in> set (drop_duplicates_keep_False rows) \<longleftrightarrow> count_list rows x = 1"
proof -
  have "count_list rows x = 1 \<Longrightarrow> x \<in> set rows"
    using count_list_0_iff[of rows x] by auto
  then show ?thesis by (auto simp: drop_duplicates_keep_False_def)
qed

lemma distinct_drop_duplicates_keep_False: "distinct (drop_duplicates_keep_False rows)"
  by (rule count_list_le_1_distinct) (simp add: drop_duplicates_keep_False_def count_list_filter)

lemma box_listings_filter:
  "box_listings b ls =
     filter (\<lambda>l. lat_min b < lat l \<and> lat l < lat_max b \<and> lon_min b < lon l \<and> lon l < lon_max b) ls"
  by (auto simp: box_listings_def intro: filter_cong)

lemma count_list_boxes:
  "count_list (concat (map (\<lambda>location. box_listings location ls) boxes)) l =
     count_list ls l *
       length (filter (\<lambda>b. lat_min b < lat l \<and> lat l < lat_max b \<and> lon_min b < lon l \<and> lon l < lon_max b) boxes)"
proof -
  have "count_list (concat (map (\<lambda>location. box_listings location ls) boxes)) l =
        sum_list (map (\<lambda>b. if lat_min b < lat l \<and> lat l < lat_max b \<and> lon_min b < lon l \<and> lon l < lon_max b
                            then count_list ls l else 0) boxes)"
    by (simp add: count_list_concat box_listings_filter count_list_filter comp_def)
  then show ?thesis by (simp only: sum_list_if_const)
qed

lemma get_ideal_listings_Inr:
  assumes "map_raise (\<lambda>center. get_bounding_box math_cos (fst center) (snd center) distance)
             clusters_center = Inr boxes"
    and "clusters_center \<noteq> []"
  shows "get_ideal_listings math_cos ls clusters_center distance =
           Inr (drop_duplicates_keep_False (concat (map (\<lambda>location. box_listings location ls) boxes)))"
proof -
  from assms have "boxes \<noteq> []"
    using map_raise_Inr_length[OF assms(1)] by auto
  with assms(1) show ?thesis
    by (simp add: get_ideal_listings_def pd_concat_def)
qed

lemma get_ideal_listings_no_centers: "get_ideal_listings math_cos ls [] distance = Inl ValueError"
  by (simp add: get_ideal_listings_def pd_concat_def)

text \<open>
  C3. A listing is selected for a box if and only if its latitude and longitude lie
  strictly between the bounds of the box; a listing whose latitude or longitude equals a
  bound is not selected.
\<close>

theorem box_listings_exclusive_bounds:
  "(l \<in> set (box_listings b ls) \<longleftrightarrow>
      l \<in> set ls \<and> lat_min b < lat l \<and> lat l < lat_max b \<and> lon_min b < lon l \<and> lon l < lon_max b)
   \<and> (lat l = lat_min b \<or> lat l = lat_max b \<or> lon l = lon_min b \<or> lon l = lon_max b
        \<longrightarrow> l \<notin> set (box_listings b ls))"
  by (auto simp: box_listings_filter)

theorem box_listings_exclusive_bounds_witness:
  "\<lparr>name = Some ''inside'', lat = 1, lon = 1\<rparr>
     \<in> set (box_listings \<lparr>lat_min = 0, lon_min = 0, lat_max = 2, lon_max = 2\<rparr>
              [\<lparr>name = Some ''inside'', lat = 1, lon = 1\<rparr>, \<lparr>name = Some ''edge'', lat = 2, lon = 1\<rparr>])
   \<and> \<lparr>name = Some ''edge'', lat = 2, lon = 1\<rparr>
     \<notin> set (box_listings \<lparr>lat_min = 0, lon_min = 0, lat_max = 2, lon_max = 2\<rparr>
              [\<lparr>name = Some ''inside'', lat = 1, lon = 1\<rparr>, \<lparr>name = Some ''edge'', lat = 2, lon = 1\<rparr>])"
  using box_listings_exclusive_bounds[of "\<lparr>name = Some ''inside'', lat = 1, lon = 1\<rparr>"
          "\<lparr>lat_min = 0, lon_min = 0, lat_max = 2, lon_max = 2\<rparr>"
          "[\<lparr>name = Some ''inside'', lat = 1, lon = 1\<rparr>, \<lparr>name = Some ''edge'', lat = 2, lon = 1\<rparr>]"]
    box_listings_exclusive_bounds[of "\<lparr>name = Some ''edge'', lat = 2, lon = 1\<rparr>"
          "\<lparr>lat_min = 0, lon_min = 0, lat_max = 2, lon_max = 2\<rparr>"
          "[\<lparr>name = Some ''inside'', lat = 1, lon = 1\<rparr>, \<lparr>name = Some ''edge'', lat = 2, lon = 1\<rparr>]"]
  by simp

text \<open>
  C1. For a frame of pairwise different listings, \<open>get_ideal_listings\<close> keeps exactly the
  listings that lie strictly inside exactly one cluster's box: a listing inside exactly
  one box is in the result, a listing inside two or more boxes (or none) is not.
\<close>

theorem get_ideal_listings_exactly_one_box:
  assumes "map_raise (\<lambda>center. get_bounding_box math_cos (fst center) (snd center) distance)
             clusters_center = Inr boxes"
    and "get_ideal_listings math_cos airbnb_locations clusters_center distance = Inr ideal_rentals"
    and "distinct airbnb_locations"
  shows "l \<in> set ideal_rentals \<longleftrightarrow>
           l \<in> set airbnb_locations \<and>
           length (filter (\<lambda>b. lat_min b < lat l \<and> lat l < lat_max b
                               \<and> lon_min b < lon l \<and> lon l < lon_max b) boxes) = 1"
proof -
  from assms(2) have "clusters_center \<noteq> []"
    by (auto simp: get_ideal_listings_no_centers)
  from get_ideal_listings_Inr[OF assms(1) this, of airbnb_locations] assms(2)
  have res: "ideal_rentals =
      drop_duplicates_keep_False (concat (map (\<lambda>location. box_listings location airbnb_locations) boxes))"
    by simp
  show ?thesis
    unfolding res set_drop_duplicates_keep_False count_list_boxes
    by (simp add: count_list_distinct[OF assms(3)])
qed

theorem get_ideal_listings_exactly_one_box_witness:
  "get_ideal_listings rounded_cos
     [\<lparr>name = Some ''west'', lat = 1, lon = -20\<rparr>, \<lparr>name = Some ''both'', lat = 1, lon = 40\<rparr>,
      \<lparr>name = Some ''east'', lat = 1, lon = 100\<rparr>, \<lparr>name = Some ''far'', lat = 1, lon = -100\<rparr>]
     [(0, 0), (0, 80)] (NumInt 6371)
   = Inr [\<lparr>name = Some ''west'', lat = 1, lon = -20\<rparr>, \<lparr>name = Some ''east'', lat = 1, lon = 100\<rparr>]
   \<and> length (filter (\<lambda>b. lat_min b < 1 \<and> 1 < lat_max b \<and> lon_min b < -20 \<and> -20 < lon_max b)
        [\<lparr>lat_min = - radToDeg, lon_min = - radToDeg, lat_max = radToDeg, lon_max = radToDeg\<rparr>,
         \<lparr>lat_min = - radToDeg, lon_min = degrees (fsub (radians 80) 1),
          lat_max = radToDeg, lon_max = degrees (fadd (radians 80) 1)\<rparr>]) = 1
   \<and> length (filter (\<lambda>b. lat_min b < 1 \<and> 1 < lat_max b \<and> lon_min b < 40 \<and> 40 < lon_max b)
        [\<lparr>lat_min = - radToDeg, lon_min = - radToDeg, lat_max = radToDeg, lon_max = radToDeg\<rparr>,
         \<lparr>lat_min = - radToDeg, lon_min = degrees (fsub (radians 80) 1),
          lat_max = radToDeg, lon_max = degrees (fadd (radians 80) 1)\<rparr>]) = 2"
proof -
  let ?west = "\<lparr>name = Some ''west'', lat = 1, lon = -20\<rparr>"
  let ?both = "\<lparr>name = Some ''both'', lat = 1, lon = 40\<rparr>"
  let ?east = "\<lparr>name = Some ''east'', lat = 1, lon = 100\<rparr>"
  let ?far = "\<lparr>name = Some ''far'', lat = 1, lon = -100\<rparr>"
  let ?ls = "[?west, ?both, ?east, ?far]"
  let ?b0 = "\<lparr>lat_min = - radToDeg, lon_min = - radToDeg, lat_max = radToDeg, lon_max = radToDeg\<rparr>"
  let ?b80 = "\<lparr>lat_min = - radToDeg, lon_min = degrees (fsub (radians 80) 1),
               lat_max = radToDeg, lon_max = degrees (fadd (radians 80) 1)\<rparr>"
  note w = radToDeg_bounds2
  note a = lon_min_80
  note b = lon_max_80
  have boxes: "map_raise (\<lambda>center. get_bounding_box rounded_cos (fst center) (snd center) (NumInt 6371))
                 [(0, 0), (0, 80)] = Inr [?b0, ?b80]"
    by (simp add: get_bounding_box_equator get_bounding_box_equator_80)
  have g0: "box_listings \<lparr>lat_min = - w, lon_min = - w, lat_max = w, lon_max = w\<rparr> ?ls
              = [?west, ?both]" if "57 \<le> w" "w \<le> 58" for w :: real
    using that by (simp add: box_listings_filter)
  have g80: "box_listings \<lparr>lat_min = - w, lon_min = a, lat_max = w, lon_max = b\<rparr> ?ls
              = [?both, ?east]"
    if "57 \<le> w" "w \<le> 58" "18 \<le> a" "a \<le> 24" "132 \<le> b" "b \<le> 140" for w a b :: real
    using that by (simp add: box_listings_filter)
  have e1: "get_ideal_listings rounded_cos ?ls [(0, 0), (0, 80)] (NumInt 6371) =
              Inr (drop_duplicates_keep_False (box_listings ?b0 ?ls @ box_listings ?b80 ?ls))"
    using get_ideal_listings_Inr[OF boxes, of ?ls] by simp
  have e2: "box_listings ?b0 ?ls @ box_listings ?b80 ?ls = [?west, ?both, ?both, ?east]"
    unfolding g0[OF w] g80[OF w a b] by simp
  have e3: "drop_duplicates_keep_False [?west, ?both, ?both, ?east] = [?west, ?east]"
    by (simp add: drop_duplicates_keep_False_def)
  have res: "get_ideal_listings rounded_cos ?ls [(0, 0), (0, 80)] (NumInt 6371) = Inr [?west, ?east]"
    by (simp only: e1 e2 e3)
  have d: "distinct ?ls" by simp
  have "?west \<in> set [?west, ?east]" by simp
  with get_ideal_listings_exactly_one_box[OF boxes res d, of ?west]
  have one: "length (filter (\<lambda>b. lat_min b < 1 \<and> 1 < lat_max b \<and> lon_min b < -20 \<and> -20 < lon_max b)
                [?b0, ?b80]) = 1"
    by simp
  have "length (filter (\<lambda>b. lat_min b < 1 \<and> 1 < lat_max b \<and> lon_min b < 40 \<and> 40 < lon_max b)
                [\<lparr>lat_min = - w, lon_min = - w, lat_max = w, lon_max = w\<rparr>,
                 \<lparr>lat_min = - w, lon_min = a, lat_max = w, lon_max = b\<rparr>]) = 2"
    if "57 \<le> w" "w \<le> 58" "18 \<le> a" "a \<le> 24" "132 \<le> b" "b \<le> 140" for w a b :: real
    using that by simp
  from this[OF w a b]
  have two: "length (filter (\<lambda>b. lat_min b < 1 \<and> 1 < lat_max b \<and> lon_min b < 40 \<and> 40 < lon_max b)
                [?b0, ?b80]) = 2" .
  from res one two show ?thesis by blast
qed

text \<open>
  C4 (amended). With an empty list of cluster centres there is no frame to concatenate:
  \<open>get_ideal_listings\<close> raises \<open>ValueError\<close> and returns no result, whatever the listings.
\<close>

theorem get_ideal_listings_zero_centers_raises:
  "get_ideal_listings math_cos airbnb_locations [] distance = Inl ValueError"
  by (simp add: get_ideal_listings_def pd_concat_def)

theorem get_ideal_listings_zero_centers_raises_witness:
  "get_ideal_listings rounded_cos [\<lparr>name = Some ''west'', lat = 1, lon = -20\<rparr>] [] (NumInt 5)
     = Inl ValueError"
  using get_ideal_listings_zero_centers_raises[of rounded_cos
          "[\<lparr>name = Some ''west'', lat = 1, lon = -20\<rparr>]" "NumInt 5"]
  by simp

text \<open>The claim as stated (an empty result for zero centres) fails on an empty frame.\<close>

theorem get_ideal_listings_zero_centers_counterexample:
  "get_ideal_listings rounded_cos ([] :: place list) [] (NumInt 5) \<noteq> Inr []"
  by (simp add: get_ideal_listings_def pd_concat_def)

section \<open>Properties of parsing and filtering the listings\<close>

lemma read_number_examples:
  "read_number ''150'' = Some 150" "read_number ''200'' = Some 200"
  "read_number ''85.00'' = Some 85" "read_number ''97'' = Some 97"
  "read_number ''1,200.00'' = None"
  by (simp_all add: read_number_def read_unsigned_def digit_of_def)

lemma get_user_input_only_min:
  "min_price \<noteq> [] \<Longrightarrow> get_user_input min_price [] = [(''mix_price'', min_price)]"
  by (simp add: get_user_input_def)

lemma nan_less_75_notna: "nan_less (Some 75) s \<Longrightarrow> s \<noteq> None"
  by (cases s) auto

lemma filter_listings_no_filter:
  "filter_listings py_float listings [] =
     Inr (filter (\<lambda>l. num_reviews l > 10 \<and> nan_less (Some 75) (review_score l)
                      \<and> host_identity_verified l = Some ''t'') listings)"
  by (auto simp: filter_listings_def Let_def intro!: filter_cong dest: nan_less_75_notna)

lemma filter_listings_bounds:
  assumes "user_filter \<noteq> []"
    and "float_of py_float (dict_get user_filter ''min_price'' MIN_AIRBNB_PRICE) = Inr lo"
    and "float_of py_float (dict_get user_filter ''max_price'' MAX_AIRBNB_PRICE) = Inr hi"
  shows "filter_listings py_float listings user_filter =
     Inr (filter (\<lambda>l. num_reviews l > 10 \<and> nan_less (Some 75) (review_score l)
                      \<and> host_identity_verified l = Some ''t''
                      \<and> nan_le (Some lo) (price l) \<and> nan_le (price l) (Some hi)) listings)"
  using assms
  by (auto simp: filter_listings_def Let_def intro!: filter_cong dest: nan_less_75_notna)

text \<open>
  C9. When the user enters only a minimum price, it is stored under \<open>mix_price\<close> and
  \<open>filter_listings\<close> finds no \<open>min_price\<close>: the lower bound is the default 0 and the
  upper bound the default 100000, whatever was typed. A listing that passes the review
  and host tests and is priced between 0 and 100000 is kept, also when its price is below
  the minimum that the user typed.
\<close>

theorem user_min_price_never_applied:
  assumes "min_price \<noteq> []"
  shows "map_of (get_user_input min_price []) ''mix_price'' = Some min_price
       \<and> dict_get (get_user_input min_price []) ''min_price'' MIN_AIRBNB_PRICE = PyInt 0
       \<and> filter_listings py_float listings (get_user_input min_price []) =
           Inr (filter (\<lambda>l. num_reviews l > 10 \<and> nan_less (Some 75) (review_score l)
                            \<and> host_identity_verified l = Some ''t''
                            \<and> nan_le (Some 0) (price l) \<and> nan_le (price l) (Some 100000)) listings)
       \<and> (\<forall>l \<in> set listings. \<forall>p m.
             num_reviews l > 10 \<and> nan_less (Some 75) (review_score l)
             \<and> host_identity_verified l = Some ''t''
             \<and> price l = Some p \<and> 0 \<le> p \<and> p \<le> 100000 \<and> py_float min_price = Some m \<and> p < m
             \<longrightarrow> (\<exists>kept. filter_listings py_float listings (get_user_input min_price []) = Inr kept
                         \<and> l \<in> set kept))"
proof -
  let ?uf = "get_user_input min_price []"
  have uf: "?uf = [(''mix_price'', min_price)]"
    using assms by (rule get_user_input_only_min)
  have lo: "dict_get ?uf ''min_price'' MIN_AIRBNB_PRICE = PyInt 0"
    by (simp add: uf dict_get_def MIN_AIRBNB_PRICE_def)
  have hi: "dict_get ?uf ''max_price'' MAX_AIRBNB_PRICE = PyInt 100000"
    by (simp add: uf dict_get_def MAX_AIRBNB_PRICE_def)
  have res: "filter_listings py_float listings ?uf =
           Inr (filter (\<lambda>l. num_reviews l > 10 \<and> nan_less (Some 75) (review_score l)
                            \<and> host_identity_verified l = Some ''t''
                            \<and> nan_le (Some 0) (price l) \<and> nan_le (price l) (Some 100000)) listings)"
    by (rule filter_listings_bounds) (simp add: uf, simp add: lo, simp add: hi)
  have "map_of ?uf ''mix_price'' = Some min_price"
    by (simp add: uf)
  moreover note lo res
  moreover have "\<forall>l \<in> set listings. \<forall>p m.
             num_reviews l > 10 \<and> nan_less (Some 75) (review_score l)
             \<and> host_identity_verified l = Some ''t''
             \<and> price l = Some p \<and> 0 \<le> p \<and> p \<le> 100000 \<and> py_float min_price = Some m \<and> p < m
             \<longrightarrow> (\<exists>kept. filter_listings py_float listings ?uf = Inr kept \<and> l \<in> set kept)"
    unfolding res by auto
  ultimately show ?thesis by blast
qed

theorem user_min_price_never_applied_witness:
  "read_number ''150'' = Some 150
   \<and> filter_listings read_number
       [\<lparr>name = Some ''loft'', lat = 49.28, lon = -123.12, host_acceptance_rate = Some 97,
         host_identity_verified = Some ''t'', price = Some 80, num_reviews = 20,
         review_score = Some 90\<rparr>]
       (get_user_input ''150'' [])
     = Inr [\<lparr>name = Some ''loft'', lat = 49.28, lon = -123.12, host_acceptance_rate = Some 97,
             host_identity_verified = Some ''t'', price = Some 80, num_reviews = 20,
             review_score = Some 90\<rparr>]"
  using user_min_price_never_applied[of "''150''" read_number
      "[\<lparr>name = Some ''loft'', lat = 49.28, lon = -123.12, host_acceptance_rate = Some 97,
         host_identity_verified = Some ''t'', price = Some 80, num_reviews = 20,
         review_score = Some 90\<rparr>]"]
  by (simp add: read_number_examples)

lemma filter_listings_raises_independent:
  "filter_listings py_float listings user_filter = Inl e
     \<Longrightarrow> filter_listings py_float [] user_filter = Inl e"
  by (auto simp: filter_listings_def Let_def split: if_splits sum.splits)

lemma filter_listings_price_present:
  assumes "user_filter \<noteq> []"
    and "filter_listings py_float listings user_filter = Inr kept"
    and "l \<in> set kept"
  shows "price l \<noteq> None"
proof -
  from assms(1,2) obtain lo hi where
    "kept = filter (\<lambda>l. nan_le (Some lo) (price l) \<and> nan_le (price l) (Some hi))
       (filter (\<lambda>l. host_identity_verified l = Some ''t'')
          (filter (\<lambda>l. num_reviews l > 10 \<and> nan_less (Some 75) (review_score l))
             (filter (\<lambda>l. review_score l \<noteq> None) listings)))"
    by (auto simp: filter_listings_def Let_def split: sum.splits)
  with assms(3) have "nan_le (Some lo) (price l)" by simp
  then show ?thesis by (cases "price l") auto
qed

lemma filter_listings_ignores_acceptance_rate:
  "filter_listings py_float (map (\<lambda>l. l\<lparr>host_acceptance_rate := a\<rparr>) listings) user_filter =
     map_sum id (map (\<lambda>l. l\<lparr>host_acceptance_rate := a\<rparr>))
       (filter_listings py_float listings user_filter)"
  by (auto simp: filter_listings_def Let_def filter_map comp_def split: sum.splits)

lemma get_listings_returns:
  assumes "rows = [] \<or> (list_ex is_text (map csv_price rows)
                          \<and> list_ex is_text (map csv_host_acceptance_rate rows))"
  shows "get_listings to_numeric rows = Inr (map (fix_types to_numeric) rows)"
  using assms by (auto simp: get_listings_def str_accessor_def)

lemma get_listings_Inr:
  assumes "get_listings to_numeric rows = Inr listings"
  shows "listings = map (fix_types to_numeric) rows"
  using assms by (auto simp: get_listings_def str_accessor_def split: if_splits)

lemma get_listings_Inl:
  assumes "get_listings to_numeric rows = Inl e"
  shows "e = AttributeError \<and> rows \<noteq> []
         \<and> (\<not> list_ex is_text (map csv_price rows)
              \<or> \<not> list_ex is_text (map csv_host_acceptance_rate rows))"
  using assms by (auto simp: get_listings_def str_accessor_def split: if_splits)

lemma fix_types_price:
  "csv_price r = Text s \<Longrightarrow> price (fix_types to_numeric r) = to_numeric (str_replace CHR ''$'' s)"
  by (simp add: fix_types_def)

lemma fix_types_rate:
  "csv_host_acceptance_rate r = Text s
     \<Longrightarrow> host_acceptance_rate (fix_types to_numeric r) = to_numeric (str_replace CHR ''%'' s)"
  by (simp add: fix_types_def)

text \<open>
  C8 (amended). When \<open>get_listings\<close> returns, it returns one row for every input row, and
  a price or acceptance-rate string becomes what \<open>to_numeric\<close> reads once \<open>$\<close> or \<open>%\<close> is
  removed: the missing value when that is not a number, with no exception. It raises only
  \<open>AttributeError\<close>, and only when the price or the acceptance-rate column of a frame with
  rows holds no string at all. \<open>filter_listings\<close> raises only for the user's strings, never
  because of a row; it drops the rows with a missing price only when the user gave a
  price filter, keeps them otherwise if they pass the review and host tests, and does not
  read the acceptance rate at all.
\<close>

theorem malformed_numbers_become_missing:
  "(get_listings to_numeric rows = Inr parsed \<longrightarrow>
      length parsed = length rows
      \<and> (\<forall>i < length rows. \<forall>s.
            (csv_price (rows ! i) = Text s
               \<longrightarrow> price (parsed ! i) = to_numeric (str_replace CHR ''$'' s))
            \<and> (csv_host_acceptance_rate (rows ! i) = Text s
                 \<longrightarrow> host_acceptance_rate (parsed ! i) = to_numeric (str_replace CHR ''%'' s))))
   \<and> (get_listings to_numeric rows = Inl e' \<longrightarrow>
        e' = AttributeError \<and> rows \<noteq> []
        \<and> (\<not> list_ex is_text (map csv_price rows)
             \<or> \<not> list_ex is_text (map csv_host_acceptance_rate rows)))
   \<and> (filter_listings py_float listings user_filter = Inl e
        \<longrightarrow> filter_listings py_float [] user_filter = Inl e)
   \<and> (user_filter \<noteq> [] \<and> filter_listings py_float listings user_filter = Inr kept \<and> l \<in> set kept
        \<longrightarrow> price l \<noteq> None)
   \<and> filter_listings py_float listings [] =
        Inr (filter (\<lambda>l. num_reviews l > 10 \<and> nan_less (Some 75) (review_score l)
                         \<and> host_identity_verified l = Some ''t'') listings)
   \<and> filter_listings py_float (map (\<lambda>l. l\<lparr>host_acceptance_rate := None\<rparr>) listings) user_filter =
        map_sum id (map (\<lambda>l. l\<lparr>host_acceptance_rate := None\<rparr>))
          (filter_listings py_float listings user_filter)"
proof (intro conjI impI)
  assume g: "get_listings to_numeric rows = Inr parsed"
  then have p: "parsed = map (fix_types to_numeric) rows"
    by (rule get_listings_Inr)
  then show "length parsed = length rows" by simp
  show "\<forall>i < length rows. \<forall>s.
            (csv_price (rows ! i) = Text s
               \<longrightarrow> price (parsed ! i) = to_numeric (str_replace CHR ''$'' s))
            \<and> (csv_host_acceptance_rate (rows ! i) = Text s
                 \<longrightarrow> host_acceptance_rate (parsed ! i) = to_numeric (str_replace CHR ''%'' s))"
    by (simp add: p fix_types_price fix_types_rate)
next
  assume "get_listings to_numeric rows = Inl e'"
  from get_listings_Inl[OF this]
  show "e' = AttributeError" and "rows \<noteq> []"
    and "\<not> list_ex is_text (map csv_price rows)
         \<or> \<not> list_ex is_text (map csv_host_acceptance_rate rows)"
    by simp_all
next
  assume "filter_listings py_float listings user_filter = Inl e"
  then show "filter_listings py_float [] user_filter = Inl e"
    by (rule filter_listings_raises_independent)
next
  assume "user_filter \<noteq> [] \<and> filter_listings py_float listings user_filter = Inr kept \<and> l \<in> set kept"
  then show "price l \<noteq> None"
    using filter_listings_price_present by blast
next
  show "filter_listings py_float listings [] =
        Inr (filter (\<lambda>l. num_reviews l > 10 \<and> nan_less (Some 75) (review_score l)
                         \<and> host_identity_verified l = Some ''t'') listings)"
    by (rule filter_listings_no_filter)
next
  show "filter_listings py_float (map (\<lambda>l. l\<lparr>host_acceptance_rate := None\<rparr>) listings) user_filter =
        map_sum id (map (\<lambda>l. l\<lparr>host_acceptance_rate := None\<rparr>))
          (filter_listings py_float listings user_filter)"
    by (rule filter_listings_ignores_acceptance_rate)
qed

lemma get_listings_example:
  "get_listings read_number
     [\<lparr>name = Some ''loft'', lat = 49, lon = -123, csv_host_acceptance_rate = Text ''97%'',
        csv_host_identity_verified = Some ''t'', csv_price = Text ''$1,200.00'', csv_num_reviews = 20,
        csv_review_score = Some 90\<rparr>,
      \<lparr>name = Some ''den'', lat = 50, lon = -123, csv_host_acceptance_rate = Missing,
        csv_host_identity_verified = Some ''t'', csv_price = Text ''$85.00'', csv_num_reviews = 20,
        csv_review_score = Some 90\<rparr>]
   = Inr [\<lparr>name = Some ''loft'', lat = 49, lon = -123, host_acceptance_rate = Some 97,
        host_identity_verified = Some ''t'', price = None, num_reviews = 20,
        review_score = Some 90\<rparr>,
          \<lparr>name = Some ''den'', lat = 50, lon = -123, host_acceptance_rate = None,
        host_identity_verified = Some ''t'', price = Some 85, num_reviews = 20,
        review_score = Some 90\<rparr>]"
  by (simp add: get_listings_def str_accessor_def fix_types_def str_replace_def
        read_number_def read_unsigned_def digit_of_def)

lemma filter_listings_example:
  "filter_listings read_number
     [\<lparr>name = Some ''loft'', lat = 49, lon = -123, host_acceptance_rate = Some 97,
        host_identity_verified = Some ''t'', price = None, num_reviews = 20,
        review_score = Some 90\<rparr>,
      \<lparr>name = Some ''den'', lat = 50, lon = -123, host_acceptance_rate = None,
        host_identity_verified = Some ''t'', price = Some 85, num_reviews = 20,
        review_score = Some 90\<rparr>]
     (get_user_input [] ''200'')
   = Inr [\<lparr>name = Some ''den'', lat = 50, lon = -123, host_acceptance_rate = None,
        host_identity_verified = Some ''t'', price = Some 85, num_reviews = 20,
        review_score = Some 90\<rparr>]"
proof -
  have uf: "get_user_input [] ''200'' = [(''max_price'', ''200'')]"
    by (simp add: get_user_input_def)
  show ?thesis
    unfolding uf
    by (subst filter_listings_bounds[where lo = 0 and hi = 200])
       (simp_all add: dict_get_def MIN_AIRBNB_PRICE_def MAX_AIRBNB_PRICE_def read_number_examples)
qed

theorem malformed_numbers_become_missing_witness:
  "get_listings read_number
     [\<lparr>name = Some ''loft'', lat = 49, lon = -123, csv_host_acceptance_rate = Text ''97%'',
        csv_host_identity_verified = Some ''t'', csv_price = Text ''$1,200.00'', csv_num_reviews = 20,
        csv_review_score = Some 90\<rparr>,
      \<lparr>name = Some ''den'', lat = 50, lon = -123, csv_host_acceptance_rate = Missing,
        csv_host_identity_verified = Some ''t'', csv_price = Text ''$85.00'', csv_num_reviews = 20,
        csv_review_score = Some 90\<rparr>]
   = Inr [\<lparr>name = Some ''loft'', lat = 49, lon = -123, host_acceptance_rate = Some 97,
        host_identity_verified = Some ''t'', price = None, num_reviews = 20,
        review_score = Some 90\<rparr>,
          \<lparr>name = Some ''den'', lat = 50, lon = -123, host_acceptance_rate = None,
        host_identity_verified = Some ''t'', price = Some 85, num_reviews = 20,
        review_score = Some 90\<rparr>]
   \<and> read_number (str_replace CHR ''$'' ''$1,200.00'') = None
   \<and> price \<lparr>name = Some ''loft'', lat = 49, lon = -123, host_acceptance_rate = Some 97,
        host_identity_verified = Some ''t'', price = None, num_reviews = 20,
        review_score = Some 90\<rparr> = None
   \<and> read_number (str_replace CHR ''$'' ''$85.00'') = Some 85
   \<and> read_number (str_replace CHR ''%'' ''97%'') = Some 97
   \<and> get_listings read_number
        [\<lparr>name = Some ''den'', lat = 50, lon = -123, csv_host_acceptance_rate = Missing,
        csv_host_identity_verified = Some ''t'', csv_price = Text ''$85.00'', csv_num_reviews = 20,
        csv_review_score = Some 90\<rparr>]
      = Inl AttributeError
   \<and> filter_listings read_number
        [\<lparr>name = Some ''loft'', lat = 49, lon = -123, host_acceptance_rate = Some 97,
        host_identity_verified = Some ''t'', price = None, num_reviews = 20,
        review_score = Some 90\<rparr>,
         \<lparr>name = Some ''den'', lat = 50, lon = -123, host_acceptance_rate = None,
        host_identity_verified = Some ''t'', price = Some 85, num_reviews = 20,
        review_score = Some 90\<rparr>]
        (get_user_input [] ''200'')
      = Inr [\<lparr>name = Some ''den'', lat = 50, lon = -123, host_acceptance_rate = None,
        host_identity_verified = Some ''t'', price = Some 85, num_reviews = 20,
        review_score = Some 90\<rparr>]
   \<and> price \<lparr>name = Some ''den'', lat = 50, lon = -123, host_acceptance_rate = None,
        host_identity_verified = Some ''t'', price = Some 85, num_reviews = 20,
        review_score = Some 90\<rparr> \<noteq> None"
proof -
  let ?ra = "\<lparr>name = Some ''loft'', lat = 49, lon = -123, csv_host_acceptance_rate = Text ''97%'',
        csv_host_identity_verified = Some ''t'', csv_price = Text ''$1,200.00'', csv_num_reviews = 20,
        csv_review_score = Some 90\<rparr>"
  let ?rb = "\<lparr>name = Some ''den'', lat = 50, lon = -123, csv_host_acceptance_rate = Missing,
        csv_host_identity_verified = Some ''t'', csv_price = Text ''$85.00'', csv_num_reviews = 20,
        csv_review_score = Some 90\<rparr>"
  let ?la = "\<lparr>name = Some ''loft'', lat = 49, lon = -123, host_acceptance_rate = Some 97,
        host_identity_verified = Some ''t'', price = None, num_reviews = 20,
        review_score = Some 90\<rparr>"
  let ?lb = "\<lparr>name = Some ''den'', lat = 50, lon = -123, host_acceptance_rate = None,
        host_identity_verified = Some ''t'', price = Some 85, num_reviews = 20,
        review_score = Some 90\<rparr>"
  note g = get_listings_example
  note f = filter_listings_example
  have r1: "read_number (str_replace CHR ''$'' ''$1,200.00'') = None"
    and r2: "read_number (str_replace CHR ''$'' ''$85.00'') = Some 85"
    and r3: "read_number (str_replace CHR ''%'' ''97%'') = Some 97"
    by (simp_all add: str_replace_def read_number_def read_unsigned_def digit_of_def)
  have a: "get_listings read_number [?rb] = Inl AttributeError"
    by (simp add: get_listings_def str_accessor_def)
  have k: "get_user_input [] ''200'' \<noteq> [] \<and>
           filter_listings read_number [?la, ?lb] (get_user_input [] ''200'') = Inr [?lb] \<and>
           ?lb \<in> set [?lb]"
    using f by (simp add: get_user_input_def)
  note inst = malformed_numbers_become_missing[where rows = "[?ra, ?rb]" and parsed = "[?la, ?lb]"
      and to_numeric = read_number and py_float = read_number and listings = "[?la, ?lb]"
      and user_filter = "get_user_input [] ''200''" and kept = "[?lb]" and l = ?lb]
  note rows = inst[THEN conjunct1, rule_format, OF g, THEN conjunct2, rule_format, of 0 "''$1,200.00''",
      THEN conjunct1, rule_format]
  have "price ([?la, ?lb] ! 0) = read_number (str_replace CHR ''$'' ''$1,200.00'')"
    by (rule rows) simp_all
  then have pa: "price ?la = None" by (simp add: r1)
  from inst k have pb: "price ?lb \<noteq> None" by blast
  from g r1 pa r2 r3 a f pb show ?thesis by blast
qed

text \<open>
  The claim as stated fails: a row whose price is not a number (\<open>$1,200.00\<close> has a
  thousands separator) is kept by \<open>filter_listings\<close> when the user leaves both price
  prompts empty, and so is a row whose acceptance rate is missing.
\<close>

theorem malformed_price_kept_counterexample:
  "read_number (str_replace CHR ''$'' ''$1,200.00'') = None
   \<and> get_listings read_number
        [\<lparr>name = Some ''loft'', lat = 49, lon = -123, csv_host_acceptance_rate = Text ''97%'',
        csv_host_identity_verified = Some ''t'', csv_price = Text ''$1,200.00'', csv_num_reviews = 20,
        csv_review_score = Some 90\<rparr>,
         \<lparr>name = Some ''den'', lat = 50, lon = -123, csv_host_acceptance_rate = Missing,
        csv_host_identity_verified = Some ''t'', csv_price = Text ''$85.00'', csv_num_reviews = 20,
        csv_review_score = Some 90\<rparr>]
      = Inr [\<lparr>name = Some ''loft'', lat = 49, lon = -123, host_acceptance_rate = Some 97,
        host_identity_verified = Some ''t'', price = None, num_reviews = 20,
        review_score = Some 90\<rparr>,
             \<lparr>name = Some ''den'', lat = 50, lon = -123, host_acceptance_rate = None,
        host_identity_verified = Some ''t'', price = Some 85, num_reviews = 20,
        review_score = Some 90\<rparr>]
   \<and> filter_listings read_number
        [\<lparr>name = Some ''loft'', lat = 49, lon = -123, host_acceptance_rate = Some 97,
        host_identity_verified = Some ''t'', price = None, num_reviews = 20,
        review_score = Some 90\<rparr>,
         \<lparr>name = Some ''den'', lat = 50, lon = -123, host_acceptance_rate = None,
        host_identity_verified = Some ''t'', price = Some 85, num_reviews = 20,
        review_score = Some 90\<rparr>]
        (get_user_input [] [])
      = Inr [\<lparr>name = Some ''loft'', lat = 49, lon = -123, host_acceptance_rate = Some 97,
        host_identity_verified = Some ''t'', price = None, num_reviews = 20,
        review_score = Some 90\<rparr>,
             \<lparr>name = Some ''den'', lat = 50, lon = -123, host_acceptance_rate = None,
        host_identity_verified = Some ''t'', price = Some 85, num_reviews = 20,
        review_score = Some 90\<rparr>]"
proof -
  have "read_number (str_replace CHR ''$'' ''$1,200.00'') = None"
    by (simp add: str_replace_def read_number_def read_unsigned_def digit_of_def)
  moreover note get_listings_example
  moreover have "filter_listings read_number [\<lparr>name = Some ''loft'', lat = 49, lon = -123, host_acceptance_rate = Some 97,
        host_identity_verified = Some ''t'', price = None, num_reviews = 20,
        review_score = Some 90\<rparr>, \<lparr>name = Some ''den'', lat = 50, lon = -123, host_acceptance_rate = None,
        host_identity_verified = Some ''t'', price = Some 85, num_reviews = 20,
        review_score = Some 90\<rparr>] (get_user_input [] [])
                 = Inr [\<lparr>name = Some ''loft'', lat = 49, lon = -123, host_acceptance_rate = Some 97,
        host_identity_verified = Some ''t'', price = None, num_reviews = 20,
        review_score = Some 90\<rparr>, \<lparr>name = Some ''den'', lat = 50, lon = -123, host_acceptance_rate = None,
        host_identity_verified = Some ''t'', price = Some 85, num_reviews = 20,
        review_score = Some 90\<rparr>]"
    by (simp add: get_user_input_def filter_listings_no_filter)
  ultimately show ?thesis by blast
qed

section \<open>Properties of the split into chain and non-chain restaurants\<close>

lemma map_raise_all_Inr: "(\<And>x. x \<in> set xs \<Longrightarrow> f x = Inr (g x)) \<Longrightarrow> map_raise f xs = Inr (map g xs)"
  by (induction xs) auto

lemma zip_map_self: "zip xs (map f xs) = map (\<lambda>x. (x, f x)) xs"
  by (induction xs) auto

lemma groupby_name_count_present:
  assumes "r \<in> set rs" and "name r = Some n"
  shows "groupby_name_count (map (\<lambda>r. (r, 1)) rs) n =
           Some (int (length (filter (\<lambda>r'. name r' = Some n) rs)))"
proof -
  have "filter (\<lambda>r'. name r' = Some n) rs \<noteq> []"
    using assms by (auto simp: filter_empty_conv)
  then show ?thesis
    by (simp add: groupby_name_count_def Let_def filter_map comp_def)
qed

lemma get_restaurant_count_present:
  assumes "r \<in> set rs" and "name r \<noteq> None"
  shows "get_restaurant_count (name r) (groupby_name_count (map (\<lambda>r. (r, 1)) rs)) =
           Inr (int (length (filter (\<lambda>r'. name r' = name r) rs)))"
proof -
  from assms(2) obtain n where n: "name r = Some n" by auto
  show ?thesis
    by (simp add: get_restaurant_count_def n groupby_name_count_present[OF assms(1) n])
qed

lemma split_restaurants_eq:
  assumes "\<forall>r \<in> set rs. name r \<noteq> None"
  shows "split_restaurants rs =
     Inr (filter (\<lambda>x. snd x > 1)
            (map (\<lambda>r. (r, int (length (filter (\<lambda>r'. name r' = name r) rs)))) rs),
          filter (\<lambda>x. snd x < 2)
            (map (\<lambda>r. (r, int (length (filter (\<lambda>r'. name r' = name r) rs)))) rs))"
proof -
  let ?cnt = "\<lambda>r. int (length (filter (\<lambda>r'. name r' = name r) rs))"
  have "map_raise (\<lambda>x. get_restaurant_count (name (fst x)) (groupby_name_count (map (\<lambda>r. (r, 1)) rs)))
          (map (\<lambda>r. (r, 1::int)) rs) = Inr (map (\<lambda>x. ?cnt (fst x)) (map (\<lambda>r. (r, 1::int)) rs))"
    by (rule map_raise_all_Inr[where g = "\<lambda>x. ?cnt (fst x)"])
       (use assms in \<open>auto simp: get_restaurant_count_present\<close>)
  moreover have "zip (map fst (map (\<lambda>r. (r, 1::int)) rs)) (map (\<lambda>x. ?cnt (fst x)) (map (\<lambda>r. (r, 1::int)) rs))
                 = map (\<lambda>r. (r, ?cnt r)) rs"
    by (simp add: comp_def zip_map_self)
  ultimately show ?thesis
    by (simp add: split_restaurants_def Let_def)
qed

lemma split_restaurants_missing_name:
  assumes "r \<in> set rs" and "name r = None"
  shows "split_restaurants rs = Inl KeyError"
proof -
  have "map_raise (\<lambda>x. get_restaurant_count (name (fst x)) c) (map (\<lambda>r. (r, 1::int)) rs) = Inl KeyError" for c
    using assms
  proof (induction rs)
    case Nil
    then show ?case by simp
  next
    case (Cons a rs)
    then show ?case
      by (cases "a = r") (auto simp: get_restaurant_count_def split: sum.splits option.splits)
  qed
  then show ?thesis by (simp add: split_restaurants_def Let_def)
qed

text \<open>
  C10. For every frame of restaurants whose rows all have a name, \<open>split_restaurants\<close>
  returns two groups that partition the rows: a row is in the chain group if the number
  of rows sharing its name is greater than 1 and in the non-chain group if that number is
  less than 2; the groups have no row in common and together hold every input row once.
\<close>

theorem split_restaurants_partitions:
  assumes "\<forall>r \<in> set restaurants. name r \<noteq> None"
  shows "\<exists>chain_restaurants non_chain_restaurants.
      split_restaurants restaurants = Inr (chain_restaurants, non_chain_restaurants)
      \<and> mset (map fst chain_restaurants) + mset (map fst non_chain_restaurants) = mset restaurants
      \<and> fst ` set chain_restaurants \<inter> fst ` set non_chain_restaurants = {}
      \<and> (\<forall>x \<in> set chain_restaurants.
            snd x = int (length (filter (\<lambda>r. name r = name (fst x)) restaurants)) \<and> snd x > 1)
      \<and> (\<forall>x \<in> set non_chain_restaurants.
            snd x = int (length (filter (\<lambda>r. name r = name (fst x)) restaurants)) \<and> snd x < 2)"
proof -
  let ?cnt = "\<lambda>r. int (length (filter (\<lambda>r'. name r' = name r) restaurants))"
  let ?tagged = "map (\<lambda>r. (r, ?cnt r)) restaurants"
  let ?chain = "filter (\<lambda>x. snd x > 1) ?tagged"
  let ?non = "filter (\<lambda>x. snd x < 2) ?tagged"
  have eq: "split_restaurants restaurants = Inr (?chain, ?non)"
    using assms by (rule split_restaurants_eq)
  have c1: "map fst ?chain = filter (\<lambda>r. ?cnt r > 1) restaurants"
    by (simp add: filter_map comp_def)
  have "map fst ?non = filter (\<lambda>r. ?cnt r < 2) restaurants"
    by (simp add: filter_map comp_def)
  also have "\<dots> = filter (\<lambda>r. \<not> ?cnt r > 1) restaurants"
    by (rule filter_cong) auto
  finally have n1: "map fst ?non = filter (\<lambda>r. \<not> ?cnt r > 1) restaurants" .
  have m: "mset (map fst ?chain) + mset (map fst ?non) = mset restaurants"
    unfolding c1 n1 by simp
  have d: "fst ` set ?chain \<inter> fst ` set ?non = {}"
    by auto
  have c: "\<forall>x \<in> set ?chain. snd x = ?cnt (fst x) \<and> snd x > 1"
    by auto
  have n: "\<forall>x \<in> set ?non. snd x = ?cnt (fst x) \<and> snd x < 2"
    by auto
  from eq m d c n show ?thesis by blast
qed

lemma get_restaurants_named: "\<forall>r \<in> set (get_restaurants locations). name r \<noteq> None"
  by (simp add: get_restaurants_def)

theorem split_restaurants_partitions_witness:
  "get_restaurants
     [\<lparr>name = Some ''Starbucks'', lat = 49, lon = -123, amenity = ''cafe''\<rparr>,
      \<lparr>name = Some ''Vancity'', lat = 49, lon = -124, amenity = ''bank''\<rparr>,
      \<lparr>name = Some ''Starbucks'', lat = 50, lon = -123, amenity = ''cafe''\<rparr>,
      \<lparr>name = Some ''Nuba'', lat = 49, lon = -122, amenity = ''restaurant''\<rparr>]
   = [\<lparr>name = Some ''Starbucks'', lat = 49, lon = -123, amenity = ''cafe''\<rparr>,
      \<lparr>name = Some ''Starbucks'', lat = 50, lon = -123, amenity = ''cafe''\<rparr>,
      \<lparr>name = Some ''Nuba'', lat = 49, lon = -122, amenity = ''restaurant''\<rparr>]
   \<and> split_restaurants
       [\<lparr>name = Some ''Starbucks'', lat = 49, lon = -123, amenity = ''cafe''\<rparr>,
        \<lparr>name = Some ''Starbucks'', lat = 50, lon = -123, amenity = ''cafe''\<rparr>,
        \<lparr>name = Some ''Nuba'', lat = 49, lon = -122, amenity = ''restaurant''\<rparr>]
     = Inr ([(\<lparr>name = Some ''Starbucks'', lat = 49, lon = -123, amenity = ''cafe''\<rparr>, 2),
             (\<lparr>name = Some ''Starbucks'', lat = 50, lon = -123, amenity = ''cafe''\<rparr>, 2)],
            [(\<lparr>name = Some ''Nuba'', lat = 49, lon = -122, amenity = ''restaurant''\<rparr>, 1)])
   \<and> mset [\<lparr>name = Some ''Starbucks'', lat = 49, lon = -123, amenity = ''cafe''\<rparr>,
            \<lparr>name = Some ''Starbucks'', lat = 50, lon = -123, amenity = ''cafe''\<rparr>]
       + mset [\<lparr>name = Some ''Nuba'', lat = 49, lon = -122, amenity = ''restaurant''\<rparr>]
     = mset [\<lparr>name = Some ''Starbucks'', lat = 49, lon = -123, amenity = ''cafe''\<rparr>,
             \<lparr>name = Some ''Starbucks'', lat = 50, lon = -123, amenity = ''cafe''\<rparr>,
             \<lparr>name = Some ''Nuba'', lat = 49, lon = -122, amenity = ''restaurant''\<rparr>]"
proof -
  let ?s1 = "\<lparr>name = Some ''Starbucks'', lat = 49, lon = -123, amenity = ''cafe''\<rparr>"
  let ?s2 = "\<lparr>name = Some ''Starbucks'', lat = 50, lon = -123, amenity = ''cafe''\<rparr>"
  let ?j = "\<lparr>name = Some ''Nuba'', lat = 49, lon = -122, amenity = ''restaurant''\<rparr>"
  let ?b = "\<lparr>name = Some ''Vancity'', lat = 49, lon = -124, amenity = ''bank''\<rparr>"
  have g: "get_restaurants [?s1, ?b, ?s2, ?j] = [?s1, ?s2, ?j]"
    by (simp add: get_restaurants_def RESTAURANTS_def)
  have named: "\<forall>r \<in> set [?s1, ?s2, ?j]. name r \<noteq> None"
    by simp
  have v: "split_restaurants [?s1, ?s2, ?j] = Inr ([(?s1, 2), (?s2, 2)], [(?j, 1)])"
    by (simp add: split_restaurants_eq)
  from split_restaurants_partitions[OF named] obtain c n where
    cn: "split_restaurants [?s1, ?s2, ?j] = Inr (c, n)"
    and m: "mset (map fst c) + mset (map fst n) = mset [?s1, ?s2, ?j]"
    by blast
  from cn v have "c = [(?s1, 2), (?s2, 2)]" "n = [(?j, 1)]" by simp_all
  with m have "mset [?s1, ?s2] + mset [?j] = mset [?s1, ?s2, ?j]" by simp
  with g v show ?thesis by blast
qed

end
